theory Spec2Isabelle
  imports Main "HOL-Library.Word" "HOL-Library.Sublist" "HOL-Library.Char_ord"
    "HOL-Library.List_Lexorder"
begin

unbundle bit_operations_syntax

section \<open>Bytes, 32-bit counts and the file store\<close>

text \<open>
  A rendered fragment is a \<^verbatim>\<open>std::string\<close> and the content of a file is a
  \<^verbatim>\<open>std::vector<unsigned char>\<close>: both are lists of bytes. The counts and lengths
  of the fragment log are \<^verbatim>\<open>uint32_t\<close>.
\<close>

type_synonym byte = "8 word"
type_synonym bytes = "byte list"
type_synonym uint32 = "32 word"

text \<open>
  \<^verbatim>\<open>size = htonl(x); appendFile(fileName, (const unsigned char *)&size, sizeof(size))\<close>
  writes the four bytes of \<^verbatim>\<open>x\<close> in network order, most significant byte first,
  whatever the byte order of the host is.
\<close>

definition htonl_bytes :: "uint32 \<Rightarrow> bytes" where
  "htonl_bytes w = [ucast (drop_bit 24 w), ucast (drop_bit 16 w), ucast (drop_bit 8 w), ucast w]"

text \<open>
  \<^verbatim>\<open>memcpy(&x, &data[offset], sizeof(uint32_t)); x = ntohl(x)\<close> on the four bytes
  copied: the first byte is the most significant one.
\<close>

fun ntohl_bytes :: "bytes \<Rightarrow> uint32" where
  "ntohl_bytes (b0 # b1 # b2 # b3 # rest) =
     push_bit 24 (ucast b0) OR push_bit 16 (ucast b1) OR push_bit 8 (ucast b2) OR ucast b3"
| "ntohl_bytes bs = 0"

text \<open>
  Modelled from the spec: \<^verbatim>\<open>writeFile\<close>, \<^verbatim>\<open>appendFile\<close> and \<^verbatim>\<open>readFile\<close> are
  declared in Utils.h, which is not among the sources. The spec (6, Filesystem) gives
  them as \<^verbatim>\<open>writeAll\<close>, \<^verbatim>\<open>appendBytes\<close> and \<^verbatim>\<open>readAll\<close>, byte-exact and without
  transformation. The store maps a path to the content of the file at that path;
  a path without a file maps to \<open>None\<close>.
\<close>

type_synonym filesystem = "string \<rightharpoonup> bytes"

definition writeFile :: "filesystem \<Rightarrow> string \<Rightarrow> bytes \<Rightarrow> filesystem" where
  "writeFile fs fileName contents = fs(fileName \<mapsto> contents)"

definition appendFile :: "filesystem \<Rightarrow> string \<Rightarrow> bytes \<Rightarrow> filesystem" where
  "appendFile fs fileName contents =
     fs(fileName \<mapsto> (case fs fileName of None \<Rightarrow> [] | Some old \<Rightarrow> old) @ contents)"

text \<open>
  The overload \<^verbatim>\<open>bool readFile(path, std::vector<unsigned char>&)\<close> answers
  \<^verbatim>\<open>false\<close> for a file that cannot be read; the overload returning a
  \<^verbatim>\<open>std::string\<close> answers the empty string then.
\<close>

definition readFile :: "filesystem \<Rightarrow> string \<Rightarrow> bytes option" where
  "readFile fs fileName = fs fileName"

definition readFileContents :: "filesystem \<Rightarrow> string \<Rightarrow> bytes" where
  "readFileContents fs fileName = (case fs fileName of None \<Rightarrow> [] | Some contents \<Rightarrow> contents)"

section \<open>Options\<close>

text \<open>
  Modelled from the spec: the option constants \<^verbatim>\<open>SPO_*\<close> are declared in Exporter.h,
  which is not among the sources. The spec (3) gives the options as a bitset; the model
  takes the set of the flags that are raised, so that \<^verbatim>\<open>m_options & SPO_X\<close> is
  \<open>SPO_X \<in> options\<close> and \<^verbatim>\<open>m_options | SPO_X\<close> is \<open>insert SPO_X options\<close>.
\<close>

datatype option_flag =
    SPO_TEXT_MODE
  | SPO_PDF_MODE
  | SPO_DESC
  | SPO_ICON_IN_SESSION
  | SPO_SYNC_LOADING
  | SPO_INCREMENTAL_EXP
  | SPO_SUPPORT_FILTER
  | SPO_IGNORE_AVATAR
  | SPO_IGNORE_EMOJI
  | SPO_IGNORE_HTML_ENC

type_synonym options = "option_flag set"

section \<open>The fragment log\<close>

subsection \<open>Exporter::serializeMessages\<close>

text \<open>The loop over the fragments: a length field, then the raw bytes.\<close>

fun appendMessages :: "filesystem \<Rightarrow> string \<Rightarrow> bytes list \<Rightarrow> filesystem" where
  "appendMessages fs fileName [] = fs"
| "appendMessages fs fileName (m # ms) =
     (let size = htonl_bytes (of_nat (length m));
          fs1 = appendFile fs fileName size;
          fs2 = appendFile fs1 fileName m
      in appendMessages fs2 fileName ms)"

text \<open>
  \<^verbatim>\<open>static_cast<uint32_t>(messages.size())\<close> keeps the low 32 bits of the size, which is
  what \<open>of_nat\<close> into a 32-bit word does.
\<close>

definition serializeMessages :: "filesystem \<Rightarrow> string \<Rightarrow> bytes list \<Rightarrow> filesystem" where
  "serializeMessages fs fileName messages =
     (let size = htonl_bytes (of_nat (length messages));
          fs1 = writeFile fs fileName [];
          fs2 = appendFile fs1 fileName size
      in appendMessages fs2 fileName messages)"

subsection \<open>Exporter::unserializeMessages\<close>

text \<open>
  Offsets and sizes are \<^verbatim>\<open>size_t\<close>, taken as 64 bits wide: a sum of two of them
  wraps around at \<open>2 ^ 64\<close>.
\<close>

definition size_add :: "nat \<Rightarrow> nat \<Rightarrow> nat" where
  "size_add a b = (a + b) mod 2 ^ 64"

text \<open>
  Every access to the bytes of the file goes through \<open>read_bytes\<close>, which reads the
  \<open>n\<close> bytes from \<open>offset\<close> on and answers \<open>OutOfBounds\<close> when one of them lies
  past the end of the data. This is what \<^verbatim>\<open>memcpy(&x, &data[offset], 4)\<close> and the
  constructor \<^verbatim>\<open>std::string(&data[offset], n)\<close> read. Both hand \<open>offset\<close> to
  \<^verbatim>\<open>operator[]\<close> of the vector, which asks for a subscript below the size: the second
  part of the answer says whether it was. With \<open>n = 0\<close> and \<open>offset\<close> the size of the
  data no byte is read, but the subscript is not in range: the standard leaves that call
  undefined, a library built with assertions stops the program there, and the usual
  build goes on with the address one past the last byte.
\<close>

datatype error = OutOfBounds | BadAlloc

definition read_bytes :: "bytes \<Rightarrow> nat \<Rightarrow> nat \<Rightarrow> error + bytes \<times> bool" where
  "read_bytes data offset n =
     (if offset + n \<le> length data
      then Inr (take n (drop offset data), offset < length data)
      else Inl OutOfBounds)"

text \<open>
  The loop \<^verbatim>\<open>for (uint32_t idx = 0; idx < itemSize; ++idx)\<close> with its two
  \<^verbatim>\<open>break\<close>s. The state is \<open>idx\<close>, the offset, the fragments read so far and
  \<open>in_range\<close>, whether every subscript so far was in range.
\<close>

function unserializeLoop :: "bytes \<Rightarrow> nat \<Rightarrow> nat \<Rightarrow> nat \<Rightarrow> bytes list \<Rightarrow> bool
    \<Rightarrow> error + bytes list \<times> bool" where
  "unserializeLoop data itemSize idx offset messages in_range =
     (if idx < itemSize then
        (if size_add offset 4 > length data then Inr (messages, in_range)
         else (case read_bytes data offset 4 of
           Inl e \<Rightarrow> Inl e
         | Inr (raw, in_range1) \<Rightarrow>
             (let offset1 = size_add offset 4;
                  sizeOfString = unat (ntohl_bytes raw)
              in if size_add offset1 sizeOfString > length data
                 then Inr (messages, in_range \<and> in_range1)
                 else (case read_bytes data offset1 sizeOfString of
                   Inl e \<Rightarrow> Inl e
                 | Inr (s, in_range2) \<Rightarrow>
                     unserializeLoop data itemSize (Suc idx) (size_add offset1 sizeOfString)
                       (messages @ [s]) (in_range \<and> in_range1 \<and> in_range2)))))
      else Inr (messages, in_range))"
  by pat_completeness auto
termination
  by (relation "measure (\<lambda>(data, itemSize, idx, offset, messages, in_range). itemSize - idx)")
    auto

declare unserializeLoop.simps [simp del]

text \<open>
  \<open>messages\<close> is the vector the caller hands in. A file that cannot be read clears it; a
  file shorter than the count returns before the \<^verbatim>\<open>clear\<close> and leaves it as it was.
  \<^verbatim>\<open>messages.reserve(itemSize)\<close> asks the allocator for room for as many strings as the
  count field of the file says, before any entry is looked at. How much the allocator
  grants is the platform's: \<open>reservable\<close> is the largest number of strings it grants a
  vector, and a larger request throws \<^verbatim>\<open>std::bad_alloc\<close>, which nothing catches. The
  bytes of a fragment are copied from data already in memory and are taken as granted.
  The answer is the fragments and whether every subscript was in range.
\<close>

definition unserializeMessages :: "nat \<Rightarrow> filesystem \<Rightarrow> string \<Rightarrow> bytes list
    \<Rightarrow> error + bytes list \<times> bool" where
  "unserializeMessages reservable fs fileName messages =
     (case readFile fs fileName of
        None \<Rightarrow> Inr ([], True)
      | Some data \<Rightarrow>
          if length data < 4 then Inr (messages, True)
          else (case read_bytes data 0 4 of
                  Inl e \<Rightarrow> Inl e
                | Inr (raw, in_range) \<Rightarrow>
                    (let itemSize = unat (ntohl_bytes raw)
                     in if itemSize > reservable then Inl BadAlloc
                        else unserializeLoop data itemSize 0 (size_add 0 4) [] in_range)))"

subsection \<open>Exporter::mergeMessages\<close>

text \<open>
  \<open>orgMessages\<close> starts empty. With \<^verbatim>\<open>SPO_DESC\<close> clear the two vectors are swapped
  before the second is inserted at the end of the first.
\<close>

definition mergeMessages :: "nat \<Rightarrow> filesystem \<Rightarrow> options \<Rightarrow> string \<Rightarrow> bytes list
    \<Rightarrow> error + bytes list" where
  "mergeMessages reservable fs opts fileName messages =
     (case unserializeMessages reservable fs fileName [] of
        Inl e \<Rightarrow> Inl e
      | Inr (orgMessages, in_range) \<Rightarrow>
          (let (messages1, orgMessages1) =
                 (if SPO_DESC \<notin> opts then (orgMessages, messages) else (messages, orgMessages))
           in Inr (messages1 @ orgMessages1)))"

section \<open>The framing of one fragment\<close>

text \<open>One entry of the log as the spec gives it: the length, big-endian, then the bytes.\<close>

definition frame :: "bytes \<Rightarrow> bytes" where
  "frame m = htonl_bytes (of_nat (length m)) @ m"

section \<open>The export context\<close>

text \<open>
  Modelled from the spec: the class \<^verbatim>\<open>ExportContext\<close> is declared in ExportContext.h,
  which is not among the sources. The spec (3) gives it as the options, the time of the
  last export and the mapping from a conversation to the largest record id processed for
  it. Record ids are \<^verbatim>\<open>int64_t\<close>; they are only compared and copied, never computed
  with, so they are integers here. \<^verbatim>\<open>getMaxId(usrName, maxId)\<close> writes the stored value
  into \<^verbatim>\<open>maxId\<close> and leaves it as it is for a conversation without an entry;
  \<^verbatim>\<open>setMaxId\<close> stores the value; a new context is empty.
\<close>

record ExportContext =
  ctxOptions :: options
  exportTime :: nat
  maxIds :: "string \<rightharpoonup> int"

definition newExportContext :: ExportContext where
  "newExportContext = \<lparr>ctxOptions = {}, exportTime = 0, maxIds = Map.empty\<rparr>"

definition getMaxId :: "ExportContext \<Rightarrow> string \<Rightarrow> int \<Rightarrow> int" where
  "getMaxId context usrName maxId = (case maxIds context usrName of None \<Rightarrow> maxId | Some v \<Rightarrow> v)"

definition setMaxId :: "ExportContext \<Rightarrow> string \<Rightarrow> int \<Rightarrow> ExportContext" where
  "setMaxId context usrName maxId = context\<lparr>maxIds := (maxIds context)(usrName \<mapsto> maxId)\<rparr>"

definition getNumberOfSessions :: "ExportContext \<Rightarrow> nat" where
  "getNumberOfSessions context = card (dom (maxIds context))"

definition getOptions :: "ExportContext \<Rightarrow> options" where
  "getOptions context = ctxOptions context"

definition setOptions :: "ExportContext \<Rightarrow> options \<Rightarrow> ExportContext" where
  "setOptions context opts = context\<lparr>ctxOptions := opts\<rparr>"

section \<open>Exporting one conversation\<close>

text \<open>
  Of a record (\<^verbatim>\<open>WXMSG\<close>) the exporter itself reads the id only; of a conversation
  (\<^verbatim>\<open>Session\<close>) it reads the names, the number of records and whether there is a
  database file. Both types are declared outside the sources.
\<close>

record WXMSG =
  msgIdValue :: int
  msgContent :: bytes

record Session =
  usrName :: string
  ownerUsrName :: string
  outputFileName :: string
  recordCount :: int
  dbFileEmpty :: bool

text \<open>
  The collaborators of \<^verbatim>\<open>exportSession\<close> that are not among the sources are
  parameters: the enumerator built by \<^verbatim>\<open>SessionParser::buildMsgEnumerator\<close> is the list
  of the records it yields for a conversation and a threshold; \<^verbatim>\<open>MessageParser::parse\<close>
  gives the template values of a record; \<^verbatim>\<open>buildContentFromTemplateValues\<close> renders
  them. \<^verbatim>\<open>m_cancelled\<close> is raised by another thread: \<open>cancelled n\<close> is what the loop
  reads of it after it has rendered its \<open>n\<close>-th record.
\<close>

record 'tv Collaborators =
  buildMsgEnumerator :: "Session \<Rightarrow> int \<Rightarrow> WXMSG list"
  parse :: "WXMSG \<Rightarrow> Session \<Rightarrow> 'tv list"
  buildContentFromTemplateValues :: "'tv \<Rightarrow> bytes"
  cancelled :: "nat \<Rightarrow> bool"

text \<open>\<^verbatim>\<open>Exporter::exportMessage\<close>: the rendered values, joined, become one more fragment.\<close>

definition exportMessage :: "'tv Collaborators \<Rightarrow> 'tv list \<Rightarrow> bytes list \<Rightarrow> bytes list" where
  "exportMessage env tvs messages =
     messages @ [concat (map (buildContentFromTemplateValues env) tvs)]"

text \<open>
  The loop \<^verbatim>\<open>while (enumerator->nextMessage(msg))\<close> of \<^verbatim>\<open>exportSession\<close>, over the
  records the enumerator still has to yield. The state is \<open>maxMsgId\<close>, the fragments and
  \<open>numberOfMsgs\<close>; the flag is read at the end of the body, after the record is rendered.
\<close>

fun messageLoop :: "'tv Collaborators \<Rightarrow> Session \<Rightarrow> WXMSG list \<Rightarrow> int \<Rightarrow> bytes list \<Rightarrow> nat
    \<Rightarrow> int \<times> bytes list \<times> nat" where
  "messageLoop env session [] maxMsgId messages numberOfMsgs = (maxMsgId, messages, numberOfMsgs)"
| "messageLoop env session (msg # rest) maxMsgId messages numberOfMsgs =
     (let maxMsgId1 = (if msgIdValue msg > maxMsgId then msgIdValue msg else maxMsgId);
          tvs = parse env msg session;
          messages1 = exportMessage env tvs messages;
          numberOfMsgs1 = numberOfMsgs + 1
      in if cancelled env numberOfMsgs1 then (maxMsgId1, messages1, numberOfMsgs1)
         else messageLoop env session rest maxMsgId1 messages1 numberOfMsgs1)"

text \<open>
  Modelled from the spec: \<^verbatim>\<open>combinePath\<close> is declared in Utils.h, which is not among the
  sources; it joins path components. The state folder and its layout are those of the
  spec (6).
\<close>

definition combinePath :: "string \<Rightarrow> string \<Rightarrow> string" where
  "combinePath a b = a @ ''/'' @ b"

definition WXEXP_DATA_FOLDER :: string where
  "WXEXP_DATA_FOLDER = ''.wxexp''"

definition WXEXP_DATA_FILE :: string where
  "WXEXP_DATA_FILE = ''wxexp.dat''"

definition rawMsgFileName :: "string \<Rightarrow> Session \<Rightarrow> string" where
  "rawMsgFileName m_output session =
     combinePath (combinePath (combinePath m_output WXEXP_DATA_FOLDER) (ownerUsrName session))
       (usrName session @ ''.dat'')"

text \<open>
  The shell document is the template \<^verbatim>\<open>frame\<close> with its placeholders replaced; the
  templates are not among the sources, so the document is the values put into it:
  \<^verbatim>\<open>%%SIZE_OF_PAGE%%\<close>, \<^verbatim>\<open>%%NUMBER_OF_MSGS%%\<close>, \<^verbatim>\<open>%%NUMBER_OF_PAGES%%\<close> and the fragments
  joined into \<^verbatim>\<open>%%BODY%%\<close>. A data page \<^verbatim>\<open>msg-N.js\<close> is its number \<open>N\<close> and the
  fragments in its JSON array.
\<close>

record ShellDocument =
  sizeOfPage :: nat
  numberOfMsgsValue :: nat
  numberOfPagesValue :: nat
  body :: "bytes list"

type_synonym DataPage = "nat \<times> bytes list"

text \<open>
  The loop \<^verbatim>\<open>for (size_t page = 0; page < numberOfPages; ++page)\<close>; the iterators
  \<^verbatim>\<open>b\<close> and \<^verbatim>\<open>e\<close> are positions in \<open>messages\<close>.
\<close>

function pageLoop :: "bytes list \<Rightarrow> nat \<Rightarrow> nat \<Rightarrow> nat \<Rightarrow> nat \<Rightarrow> DataPage list" where
  "pageLoop messages pageSize numberOfPages page e =
     (if page < numberOfPages then
        (let b = e;
             e1 = (if page = numberOfPages - 1 then length messages else b + pageSize)
         in (page + 1, drop b (take e1 messages))
              # pageLoop messages pageSize numberOfPages (page + 1) e1)
      else [])"
  by pat_completeness auto
termination
  by (relation "measure (\<lambda>(messages, pageSize, numberOfPages, page, e). numberOfPages - page)") auto

declare pageLoop.simps [simp del]

text \<open>
  The block under \<^verbatim>\<open>if (numberOfMsgs > 0 && !messages.empty())\<close>. The page size is 500
  in a debug build and 1000 with \<^verbatim>\<open>NDEBUG\<close>.
\<close>

definition paginate :: "bool \<Rightarrow> options \<Rightarrow> bytes list \<Rightarrow> ShellDocument \<times> DataPage list" where
  "paginate ndebug m_options messages =
     (let pageSize = (if ndebug then 1000 else 500);
          b = 0;
          e = (if (SPO_TEXT_MODE \<in> m_options \<or> SPO_SYNC_LOADING \<in> m_options)
                  \<or> length messages \<le> pageSize
               then length messages else b + pageSize);
          numberOfMessages = length messages - e;
          numberOfPages = (numberOfMessages + pageSize - 1) div pageSize;
          html = \<lparr>sizeOfPage = pageSize, numberOfMsgsValue = numberOfMessages,
                  numberOfPagesValue = numberOfPages, body = drop b (take e messages)\<rparr>
      in if SPO_SYNC_LOADING \<notin> m_options \<and> numberOfPages > 0
         then (html, pageLoop messages pageSize numberOfPages 0 e)
         else (html, []))"

text \<open>
  \<^verbatim>\<open>Exporter::exportSession\<close>. The result is the context and the store as the call leaves
  them, the shell document and the data pages it wrote, and the number of records it
  rendered, which is what the function returns. Directories it makes are left out.
  \<open>reservable\<close> is what the platform grants the reader of the log.
\<close>

record ExportResult =
  resContext :: ExportContext
  resFiles :: filesystem
  resDocument :: "ShellDocument option"
  resPages :: "DataPage list"
  resCount :: nat

definition exportSession :: "bool \<Rightarrow> nat \<Rightarrow> 'tv Collaborators \<Rightarrow> options \<Rightarrow> string
    \<Rightarrow> ExportContext \<Rightarrow> filesystem \<Rightarrow> Session \<Rightarrow> error + ExportResult" where
  "exportSession ndebug reservable env m_options m_output m_exportContext fs session =
     (if dbFileEmpty session
      then Inr \<lparr>resContext = m_exportContext, resFiles = fs, resDocument = None,
                resPages = [], resCount = 0\<rparr>
      else
        (let maxMsgId0 = getMaxId m_exportContext (usrName session) 0;
             (maxMsgId, messages, numberOfMsgs) =
                messageLoop env session (buildMsgEnumerator env session maxMsgId0) maxMsgId0 [] 0;
             context1 = (if maxMsgId > 0 then setMaxId m_exportContext (usrName session) maxMsgId
                         else m_exportContext);
             fileName = rawMsgFileName m_output session
         in case (if SPO_INCREMENTAL_EXP \<in> m_options
                  then mergeMessages reservable fs m_options fileName messages
                  else Inr messages) of
              Inl err \<Rightarrow> Inl err
            | Inr messages1 \<Rightarrow>
                (let fs1 = serializeMessages fs fileName messages1
                 in if numberOfMsgs > 0 \<and> messages1 \<noteq> []
                    then (let (html, pages) = paginate ndebug m_options messages1
                          in Inr \<lparr>resContext = context1, resFiles = fs1,
                                   resDocument = Some html, resPages = pages,
                                   resCount = numberOfMsgs\<rparr>)
                    else Inr \<lparr>resContext = context1, resFiles = fs1, resDocument = None,
                              resPages = [], resCount = numberOfMsgs\<rparr>)))"

section \<open>The backup index\<close>

text \<open>\<^verbatim>\<open>struct ITunesFile\<close>; the two \<^verbatim>\<open>unsigned int\<close> fields are 32 bits wide.\<close>

record ITunesFile =
  fileId :: string
  relativePath :: string
  flags :: uint32
  modifiedTime :: uint32
  blob :: bytes

definition isDir :: "ITunesFile \<Rightarrow> bool" where
  "isDir file = (flags file = 2)"

text \<open>
  \<^verbatim>\<open>ITunesDb::filter\<close> is a template over the type \<^verbatim>\<open>TFilter\<close> of its argument
  \<^verbatim>\<open>f\<close>, which it uses in three ways: as the comparator of \<^verbatim>\<open>std::equal_range\<close>,
  called as \<^verbatim>\<open>f(file, f)\<close> (the file sorts before the key) and as \<^verbatim>\<open>f(f, file)\<close> (the
  key sorts before the file), and as the match test \<^verbatim>\<open>f == file\<close>.
\<close>

record TFilter =
  file_before_key :: "ITunesFile \<Rightarrow> bool"
  key_before_file :: "ITunesFile \<Rightarrow> bool"
  matches :: "ITunesFile \<Rightarrow> bool"

text \<open>
  \<^verbatim>\<open>std::equal_range(first, last, value, comp)\<close> is the pair of
  \<^verbatim>\<open>std::lower_bound\<close> and \<^verbatim>\<open>std::upper_bound\<close>, both binary searches that halve the
  range \<open>[first, first + len)\<close>. Iterators are positions in the vector.
\<close>

function lower_bound :: "'a list \<Rightarrow> ('a \<Rightarrow> bool) \<Rightarrow> nat \<Rightarrow> nat \<Rightarrow> nat" where
  "lower_bound xs comp_elem_value first len =
     (if len > 0 then
        (let half = len div 2;
             middle = first + half
         in if comp_elem_value (xs ! middle)
            then lower_bound xs comp_elem_value (middle + 1) (len - half - 1)
            else lower_bound xs comp_elem_value first half)
      else first)"
  by pat_completeness auto
termination
  by (relation "measure (\<lambda>(xs, c, first, len). len)") auto

declare lower_bound.simps [simp del]

function upper_bound :: "'a list \<Rightarrow> ('a \<Rightarrow> bool) \<Rightarrow> nat \<Rightarrow> nat \<Rightarrow> nat" where
  "upper_bound xs comp_value_elem first len =
     (if len > 0 then
        (let half = len div 2;
             middle = first + half
         in if comp_value_elem (xs ! middle)
            then upper_bound xs comp_value_elem first half
            else upper_bound xs comp_value_elem (middle + 1) (len - half - 1))
      else first)"
  by pat_completeness auto
termination
  by (relation "measure (\<lambda>(xs, c, first, len). len)") auto

declare upper_bound.simps [simp del]

definition equal_range :: "ITunesFile list \<Rightarrow> TFilter \<Rightarrow> nat \<times> nat" where
  "equal_range m_files f =
     (lower_bound m_files (file_before_key f) 0 (length m_files),
      upper_bound m_files (key_before_file f) 0 (length m_files))"

text \<open>
  The loop \<^verbatim>\<open>for (it = range.first; it != range.second; ++it)\<close>. An iterator that
  reaches the end of the vector without meeting \<^verbatim>\<open>range.second\<close> would be read out of
  bounds.
\<close>

function filterLoop :: "ITunesFile list \<Rightarrow> TFilter \<Rightarrow> nat \<Rightarrow> nat \<Rightarrow> ITunesFile list
    \<Rightarrow> error + ITunesFile list" where
  "filterLoop m_files f it second files =
     (if it \<noteq> second then
        (if it < length m_files
         then filterLoop m_files f (it + 1) second
                (if matches f (m_files ! it) then files @ [m_files ! it] else files)
         else Inl OutOfBounds)
      else Inr files)"
  by pat_completeness auto
termination
  by (relation "measure (\<lambda>(m_files, f, it, second, files). length m_files - it)") auto

declare filterLoop.simps [simp del]

text \<open>\<^verbatim>\<open>ITunesDb::filter\<close>, over the catalog \<^verbatim>\<open>m_files\<close>.\<close>

definition ITunesDb_filter :: "ITunesFile list \<Rightarrow> TFilter \<Rightarrow> error + ITunesFile list" where
  "ITunesDb_filter m_files f =
     (let (first, second) = equal_range m_files f
      in if first \<noteq> second then filterLoop m_files f first second [] else Inr [])"

text \<open>
  A filter for a path prefix, as an instance: a file sorts before the key when the first
  characters of its path, as many as the prefix has, are below the prefix in the order of
  strings, after it when they are above, and it matches when they are the prefix.
\<close>

definition prefix_filter :: "string \<Rightarrow> TFilter" where
  "prefix_filter p =
     \<lparr>file_before_key = (\<lambda>file. take (length p) (relativePath file) < p),
      key_before_file = (\<lambda>file. p < take (length p) (relativePath file)),
      matches = (\<lambda>file. take (length p) (relativePath file) = p)\<rparr>"

definition catalog_file :: "string \<Rightarrow> ITunesFile" where
  "catalog_file path =
     \<lparr>fileId = [], relativePath = path, flags = 1, modifiedTime = 0, blob = []\<rparr>"

section \<open>One export pass\<close>

text \<open>
  Modelled from the spec: \<^verbatim>\<open>ExportContext::unserialize\<close> is declared in
  ExportContext.h, which is not among the sources, and the spec does not give the bytes
  of a serialized context. The decoding is a parameter \<open>decode\<close>, \<open>None\<close> for input
  that is not a context; in the words of the spec (4.4), such input yields no prior
  context: the context object is left as it was and the call answers \<^verbatim>\<open>false\<close>.
\<close>

definition unserialize :: "(bytes \<Rightarrow> ExportContext option) \<Rightarrow> ExportContext \<Rightarrow> bytes
    \<Rightarrow> bool \<times> ExportContext" where
  "unserialize decode context contents =
     (case decode contents of None \<Rightarrow> (False, context) | Some c \<Rightarrow> (True, c))"

text \<open>
  \<^verbatim>\<open>Exporter::loadExportContext\<close>. The context is passed by pointer: the result is the
  answer and the context as the call leaves it.
\<close>

definition loadExportContext :: "(bytes \<Rightarrow> ExportContext option) \<Rightarrow> filesystem \<Rightarrow> string
    \<Rightarrow> ExportContext \<Rightarrow> bool \<times> ExportContext" where
  "loadExportContext decode fs contextFile context =
     (let contents = readFileContents fs contextFile
      in if contents = [] then (False, context)
         else (let (ok, context1) = unserialize decode context contents
               in if \<not> ok \<or> getNumberOfSessions context1 = 0
                  then (False, context1) else (True, context1)))"

text \<open>
  \<^verbatim>\<open>Exporter::loadITunes\<close>. \<^verbatim>\<open>ITunesDb::load\<close> is declared but not defined in the
  sources: \<open>load domain\<close> is its answer for a domain. A failure for the shared domain
  falls into the empty branch marked \<^verbatim>\<open>// Optional\<close>.
\<close>

definition loadITunes :: "(string \<Rightarrow> bool) \<Rightarrow> bool \<Rightarrow> bool" where
  "loadITunes load detailedInfo =
     (if \<not> load ''AppDomain-com.tencent.xin'' then False
      else (let shared = load ''AppDomainGroup-group.com.tencent.xin''
            in True))"

text \<open>
  What a pass does to the world outside: the notifications it sends and the directories
  and files it makes in the output directory. Lines written to the logger are left out.
\<close>

datatype effect =
    NotifyStart
  | NotifyComplete bool
  | MakeDirectory string
  | WriteFile string

fun is_output :: "effect \<Rightarrow> bool" where
  "is_output (MakeDirectory path) = True"
| "is_output (WriteFile path) = True"
| "is_output e = False"

definition contextFileName :: "string \<Rightarrow> string" where
  "contextFileName m_output = combinePath (combinePath m_output WXEXP_DATA_FOLDER) WXEXP_DATA_FILE"

text \<open>
  The block of \<^verbatim>\<open>runImpl\<close> that sets the context up: a new context unless there is
  one, then, only with \<^verbatim>\<open>SPO_INCREMENTAL_EXP\<close>, the attempt to load the stored one. The
  result is \<^verbatim>\<open>m_options\<close> and the context as the block leaves them.
\<close>

definition runImpl_context :: "(bytes \<Rightarrow> ExportContext option) \<Rightarrow> filesystem \<Rightarrow> string
    \<Rightarrow> options \<Rightarrow> ExportContext option \<Rightarrow> options \<times> ExportContext" where
  "runImpl_context decode fs m_output m_options m_exportContext =
     (let context0 = (case m_exportContext of None \<Rightarrow> newExportContext | Some c \<Rightarrow> c)
      in if SPO_INCREMENTAL_EXP \<in> m_options
         then (let (loaded, context1) = loadExportContext decode fs (contextFileName m_output) context0
               in if loaded
                  then (insert SPO_INCREMENTAL_EXP (getOptions context1), context1)
                  else (m_options, setOptions context1 m_options))
         else (m_options, setOptions context0 m_options))"

text \<open>
  Modelled from the spec: \<^verbatim>\<open>ExportContext::serialize\<close> and
  \<^verbatim>\<open>refreshExportTime\<close> are declared in ExportContext.h, which is not among the
  sources. The encoding is a parameter, as the decoding is; the time of the export
  becomes the time of the pass.
\<close>

definition refreshExportTime :: "ExportContext \<Rightarrow> nat \<Rightarrow> ExportContext" where
  "refreshExportTime context now = context\<lparr>exportTime := now\<rparr>"

text \<open>
  The collaborators of \<^verbatim>\<open>runImpl\<close> that are not among the sources: the answer of
  \<^verbatim>\<open>ITunesDb::load\<close> for a domain, the accounts found by \<^verbatim>\<open>LoginInfo2Parser\<close>
  (\<open>None\<close> when it fails), the decoding and the encoding of a context, the time, and the
  loop over the accounts with \<^verbatim>\<open>exportUser\<close>, which gives the context, the effects and
  the value of \<^verbatim>\<open>m_cancelled\<close> it ends with.
\<close>

record 'u PassCollaborators =
  pass_load :: "string \<Rightarrow> bool"
  pass_users :: "'u list option"
  pass_decode :: "bytes \<Rightarrow> ExportContext option"
  pass_serialize :: "ExportContext \<Rightarrow> bytes"
  pass_now :: nat
  pass_exportUsers :: "options \<Rightarrow> ExportContext \<Rightarrow> 'u list \<Rightarrow> ExportContext \<times> effect list \<times> bool"

text \<open>
  \<^verbatim>\<open>Exporter::runImpl\<close>. \<^verbatim>\<open>notifyComplete()\<close> without an argument is taken to report
  a pass that was not cancelled. The result is the value returned, the effects in order
  and the store as the pass leaves it; the store is followed for the file of the context
  only, the other files written are among the effects. In a debug build
  (\<^verbatim>\<open>#ifndef NDEBUG\<close>) the directory \<^verbatim>\<open>dbg\<close> is made before the backup is loaded.
\<close>

definition runImpl :: "bool \<Rightarrow> 'u PassCollaborators \<Rightarrow> filesystem \<Rightarrow> string \<Rightarrow> options
    \<Rightarrow> ExportContext option \<Rightarrow> bool \<times> effect list \<times> filesystem" where
  "runImpl ndebug pass fs m_output m_options m_exportContext =
     (let effects0 = [NotifyStart]
            @ (if ndebug then [] else [MakeDirectory (combinePath m_output ''dbg'')])
      in if \<not> loadITunes (pass_load pass) True
         then (False, effects0 @ [NotifyComplete False], fs)
         else (case pass_users pass of
             None \<Rightarrow> (False, effects0 @ [NotifyComplete False], fs)
           | Some us \<Rightarrow>
               (let effects1 = effects0 @ [MakeDirectory (combinePath m_output WXEXP_DATA_FOLDER)];
                    (m_options1, context) =
                       runImpl_context (pass_decode pass) fs m_output m_options m_exportContext;
                    (context1, exported, cancelled) = pass_exportUsers pass m_options1 context us;
                    effects2 = effects1 @ exported @ [WriteFile (combinePath m_output ''index.html'')]
                in if getNumberOfSessions context1 > 0
                   then (let context2 = refreshExportTime context1 (pass_now pass);
                             fs1 = writeFile fs (contextFileName m_output)
                                     (pass_serialize pass context2)
                         in (True,
                             effects2 @ [WriteFile (contextFileName m_output),
                                         NotifyComplete cancelled],
                             fs1))
                   else (True, effects2 @ [NotifyComplete cancelled], fs))))"

text \<open>Scenarios for a pass: which domains load, nothing decodes, nothing to export.\<close>

definition load_only :: "string list \<Rightarrow> string \<Rightarrow> bool" where
  "load_only domains domain = (domain \<in> set domains)"

definition decode_nothing :: "bytes \<Rightarrow> ExportContext option" where
  "decode_nothing contents = None"

definition serialize_nothing :: "ExportContext \<Rightarrow> bytes" where
  "serialize_nothing context = []"

definition export_nothing :: "options \<Rightarrow> ExportContext \<Rightarrow> unit list
    \<Rightarrow> ExportContext \<times> effect list \<times> bool" where
  "export_nothing opts context users = (context, [], False)"

definition scenario_pass_loading :: "string list \<Rightarrow> unit PassCollaborators" where
  "scenario_pass_loading domains =
     \<lparr>pass_load = load_only domains, pass_users = Some [()], pass_decode = decode_nothing,
      pass_serialize = serialize_nothing, pass_now = 0, pass_exportUsers = export_nothing\<rparr>"

section \<open>Derived notions and scenarios\<close>

text \<open>Scenarios: a conversation with records \<open>1, \<dots>, n\<close>, each rendered as its content.\<close>

definition scenario_session :: "nat \<Rightarrow> Session" where
  "scenario_session n =
     \<lparr>usrName = ''chat'', ownerUsrName = ''me'', outputFileName = ''chat'',
      recordCount = int n, dbFileEmpty = False\<rparr>"

definition scenario_record :: "nat \<Rightarrow> WXMSG" where
  "scenario_record i = \<lparr>msgIdValue = int i, msgContent = [of_nat i]\<rparr>"

definition scenario_records :: "nat \<Rightarrow> WXMSG list" where
  "scenario_records n = map scenario_record [1..<Suc n]"

definition scenario_enumerator :: "nat \<Rightarrow> Session \<Rightarrow> int \<Rightarrow> WXMSG list" where
  "scenario_enumerator n session minId = filter (\<lambda>r. minId < msgIdValue r) (scenario_records n)"

definition scenario_parse :: "WXMSG \<Rightarrow> Session \<Rightarrow> bytes list" where
  "scenario_parse msg session = [msgContent msg]"

definition scenario_cancelled :: "nat option \<Rightarrow> nat \<Rightarrow> bool" where
  "scenario_cancelled cancelAfter j = (case cancelAfter of None \<Rightarrow> False | Some c \<Rightarrow> c \<le> j)"

definition scenario_env :: "nat \<Rightarrow> nat option \<Rightarrow> bytes Collaborators" where
  "scenario_env n cancelAfter =
     \<lparr>buildMsgEnumerator = scenario_enumerator n, parse = scenario_parse,
      buildContentFromTemplateValues = id, cancelled = scenario_cancelled cancelAfter\<rparr>"

definition no_files :: filesystem where
  "no_files = Map.empty"

text \<open>
  A platform that grants a vector every number of strings but the largest that the count
  field of a log can announce.
\<close>

definition scenario_reservable :: nat where
  "scenario_reservable = 4294967294"

text \<open>A store that holds one fragment log, at the path \<^verbatim>\<open>chat.dat\<close>.\<close>

definition scenario_log :: "bytes \<Rightarrow> filesystem" where
  "scenario_log data = writeFile no_files ''chat.dat'' data"







definition pageLengths :: "error + ExportResult \<Rightarrow> nat list" where
  "pageLengths r = (case r of Inl err \<Rightarrow> [] | Inr res \<Rightarrow> map (length \<circ> snd) (resPages res))"

definition render :: "'tv Collaborators \<Rightarrow> Session \<Rightarrow> WXMSG \<Rightarrow> bytes" where
  "render env session msg = concat (map (buildContentFromTemplateValues env) (parse env msg session))"

definition raiseMaxId :: "int \<Rightarrow> WXMSG list \<Rightarrow> int" where
  "raiseMaxId maxMsgId msgs =
     foldl (\<lambda>m msg. if msgIdValue msg > m then msgIdValue msg else m) maxMsgId msgs"


section \<open>Byte order\<close>

lemma length_htonl_bytes: "length (htonl_bytes w) = 4"
  by (simp add: htonl_bytes_def)

lemma ntohl_htonl: "ntohl_bytes (htonl_bytes w) = w"
proof (rule bit_word_eqI)
  fix n assume n: "n < LENGTH(32)"
  consider "n < 8" | "8 \<le> n" "n < 16" | "16 \<le> n" "n < 24" | "24 \<le> n" "n < 32"
    using n by fastforce
  then show "bit (ntohl_bytes (htonl_bytes w)) n = bit w n"
    by cases (auto simp: htonl_bytes_def bit_simps)
qed

lemma ntohl_htonl_append: "ntohl_bytes (htonl_bytes w @ rest) = w"
  using ntohl_htonl [of w] by (simp add: htonl_bytes_def)

lemma be32_bytes:
  fixes b0 b1 b2 b3 :: byte
  shows "htonl_bytes (push_bit 24 (ucast b0) OR push_bit 16 (ucast b1) OR push_bit 8 (ucast b2) OR ucast b3)
     = [b0, b1, b2, b3]"
  unfolding htonl_bytes_def
  by (simp; intro conjI; rule bit_word_eqI; auto simp: bit_simps dest: bit_imp_le_length)

lemma htonl_ntohl: "length bs = 4 \<Longrightarrow> htonl_bytes (ntohl_bytes bs) = bs"
proof -
  assume "length bs = 4"
  then obtain b0 b1 b2 b3 where "bs = [b0, b1, b2, b3]"
    by (auto simp: length_Suc_conv numeral_eq_Suc)
  then show ?thesis by (simp add: be32_bytes)
qed

section \<open>Writing the log\<close>

lemma appendFile_content:
  "appendFile fs f c f = Some ((case fs f of None \<Rightarrow> [] | Some old \<Rightarrow> old) @ c)"
  by (simp add: appendFile_def)

lemma appendFile_other: "g \<noteq> f \<Longrightarrow> appendFile fs f c g = fs g"
  by (simp add: appendFile_def)

lemma appendMessages_content:
  "fs f = Some pre \<Longrightarrow> appendMessages fs f ms f = Some (pre @ concat (map frame ms))"
proof (induction ms arbitrary: fs pre)
  case Nil
  then show ?case by simp
next
  case (Cons m ms)
  let ?fs2 = "appendFile (appendFile fs f (htonl_bytes (of_nat (length m)))) f m"
  have "?fs2 f = Some (pre @ frame m)"
    using Cons.prems by (simp add: appendFile_def frame_def)
  then have "appendMessages ?fs2 f ms f = Some ((pre @ frame m) @ concat (map frame ms))"
    by (rule Cons.IH)
  then show ?case by (simp add: Let_def)
qed

lemma appendMessages_other: "g \<noteq> f \<Longrightarrow> appendMessages fs f ms g = fs g"
  by (induction ms arbitrary: fs) (simp_all add: Let_def appendFile_other)

lemma serializeMessages_content:
  "serializeMessages fs f ms f = Some (htonl_bytes (of_nat (length ms)) @ concat (map frame ms))"
proof -
  let ?fs2 = "appendFile (writeFile fs f []) f (htonl_bytes (of_nat (length ms)))"
  have "?fs2 f = Some (htonl_bytes (of_nat (length ms)))"
    by (simp add: appendFile_def writeFile_def)
  then have "appendMessages ?fs2 f ms f
      = Some (htonl_bytes (of_nat (length ms)) @ concat (map frame ms))"
    by (rule appendMessages_content)
  then show ?thesis
    by (simp add: serializeMessages_def Let_def)
qed

lemma serializeMessages_other: "g \<noteq> f \<Longrightarrow> serializeMessages fs f ms g = fs g"
  by (simp add: serializeMessages_def Let_def appendMessages_other appendFile_other writeFile_def)

text \<open>
  C6. Writing a fragment log with \<open>serializeMessages\<close> leaves at the path exactly the
  four bytes of the 32-bit count of the fragments, most significant byte first, followed
  for each fragment in order by the four bytes of its 32-bit length and its raw bytes.
  What the file held before, or whether it was there at all, does not matter: two stores
  give the same content. The count field reads back as the number of fragments, and each
  length field as the size of its fragment, whenever that number fits 32 bits.
\<close>

theorem serializeMessages_layout:
  "serializeMessages fs f ms f
     = Some (htonl_bytes (of_nat (length ms)) @ concat (map (\<lambda>m. htonl_bytes (of_nat (length m)) @ m) ms))
   \<and> serializeMessages fs f ms f = serializeMessages fs' f ms f
   \<and> (length ms < 2 ^ 32 \<longrightarrow> unat (ntohl_bytes (htonl_bytes (of_nat (length ms)))) = length ms)
   \<and> (\<forall>m \<in> set ms. length m < 2 ^ 32 \<longrightarrow> unat (ntohl_bytes (htonl_bytes (of_nat (length m)))) = length m)"
proof -
  have fit: "unat (of_nat n :: uint32) = n" if "n < 2 ^ 32" for n :: nat
    using that by (simp add: unat_of_nat)
  have "frame = (\<lambda>m. htonl_bytes (of_nat (length m)) @ m)"
    by (rule ext) (simp add: frame_def)
  then show ?thesis
    using serializeMessages_content [of fs f ms] serializeMessages_content [of fs' f ms]
    by (simp add: ntohl_htonl fit)
qed

theorem serializeMessages_layout_witness:
  "serializeMessages [''a.dat'' \<mapsto> [9, 9, 9]] ''a.dat'' [[1, 2], [], [7]] ''a.dat''
     = Some [0, 0, 0, 3, 0, 0, 0, 2, 1, 2, 0, 0, 0, 0, 0, 0, 0, 1, 7]
   \<and> serializeMessages [''a.dat'' \<mapsto> [9, 9, 9]] ''a.dat'' [[1, 2], [], [7]] ''a.dat''
     = serializeMessages Map.empty ''a.dat'' [[1, 2], [], [7]] ''a.dat''
   \<and> unat (ntohl_bytes (htonl_bytes (of_nat (length [[1, 2], [], [7 :: byte]])))) = 3"
proof -
  note layout =
    serializeMessages_layout [of "[''a.dat'' \<mapsto> [9, 9, 9]]" "''a.dat''" "[[1, 2], [], [7]]" Map.empty]
  from layout have content:
    "serializeMessages [''a.dat'' \<mapsto> [9, 9, 9]] ''a.dat'' [[1, 2], [], [7]] ''a.dat''
       = Some [0, 0, 0, 3, 0, 0, 0, 2, 1, 2, 0, 0, 0, 0, 0, 0, 0, 1, 7]"
    by (simp add: htonl_bytes_def)
  from layout have same:
    "serializeMessages [''a.dat'' \<mapsto> [9, 9, 9]] ''a.dat'' [[1, 2], [], [7]] ''a.dat''
       = serializeMessages Map.empty ''a.dat'' [[1, 2], [], [7]] ''a.dat''"
    by blast
  from layout have count:
    "unat (ntohl_bytes (htonl_bytes (of_nat (length [[1, 2], [], [7 :: byte]])))) = 3"
    by simp
  from content same count show ?thesis by blast
qed

section \<open>Reading the log\<close>

lemma size_add_no_wrap: "a + b < 2 ^ 64 \<Longrightarrow> size_add a b = a + b"
  unfolding size_add_def by (rule mod_less)

lemma length_frame: "length (frame m) = 4 + length m"
  by (simp add: frame_def length_htonl_bytes)

lemma drop_split: "drop p xs = take n (drop p xs) @ drop (p + n) xs"
proof -
  have "drop p xs = take n (drop p xs) @ drop n (drop p xs)"
    by (simp only: append_take_drop_id)
  also have "drop n (drop p xs) = drop (p + n) xs"
    by (simp only: drop_drop add.commute [of n p])
  finally show ?thesis .
qed

lemma no_entry_short:
  assumes "length m < 2 ^ 32" and "prefix (frame m) (drop p data)"
  shows "p + 4 \<le> length data \<and> p + 4 + unat (ntohl_bytes (take 4 (drop p data))) \<le> length data
     \<and> m = take (unat (ntohl_bytes (take 4 (drop p data)))) (drop (p + 4) data)"
proof -
  from assms(2) obtain rest where d: "drop p data = frame m @ rest"
    by (auto simp: prefix_def)
  have "length (drop p data) = 4 + length m + length rest"
    by (simp only: d length_append length_frame)
  then have len: "p + 4 + length m \<le> length data" by simp
  have t4: "take 4 (drop p data) = htonl_bytes (of_nat (length m))"
    by (simp add: d frame_def length_htonl_bytes)
  have sz: "unat (ntohl_bytes (take 4 (drop p data))) = length m"
    using assms(1) by (simp add: t4 ntohl_htonl unat_of_nat)
  have "drop p data = take 4 (drop p data) @ drop (p + 4) data"
    by (rule drop_split)
  then have "htonl_bytes (of_nat (length m)) @ (m @ rest)
      = htonl_bytes (of_nat (length m)) @ drop (p + 4) data"
    unfolding t4 by (simp only: d frame_def append_assoc)
  then have "drop (p + 4) data = m @ rest"
    by (simp only: same_append_eq)
  then have m: "take (length m) (drop (p + 4) data) = m" by simp
  show ?thesis using len sz m by simp
qed

lemma unserializeLoop_reads:
  assumes "length data < 2 ^ 63"
    and "data = pre @ concat (map frame ms) @ post"
    and "\<forall>m \<in> set ms. length m < 2 ^ 32"
    and "idx + length ms \<le> itemSize"
  shows "unserializeLoop data itemSize idx (length pre) acc flag
     = unserializeLoop data itemSize (idx + length ms)
         (length pre + length (concat (map frame ms))) (acc @ ms)
         (flag \<and> (ms = [] \<or> post \<noteq> [] \<or> last ms \<noteq> []))"
  using assms(2-4)
proof (induction ms arbitrary: pre idx acc flag)
  case Nil
  then show ?case by simp
next
  case (Cons m ms)
  let ?p = "length pre"
  have lm: "length m < 2 ^ 32" using Cons.prems(2) by simp
  have lt: "idx < itemSize" using Cons.prems(3) by simp
  have d: "drop ?p data = frame m @ (concat (map frame ms) @ post)"
    using Cons.prems(1) by simp
  then have pre_m: "prefix (frame m) (drop ?p data)" by simp
  note e = no_entry_short [OF lm pre_m]
  define sz where "sz = unat (ntohl_bytes (take 4 (drop ?p data)))"
  have sz: "sz = length m"
  proof -
    have "take 4 (drop ?p data) = htonl_bytes (of_nat (length m))"
      by (simp add: d frame_def length_htonl_bytes)
    then show ?thesis using lm by (simp add: sz_def ntohl_htonl unat_of_nat)
  qed
  have b1: "?p + 4 \<le> length data" and b2: "?p + 4 + sz \<le> length data"
    and m: "m = take sz (drop (?p + 4) data)"
    using e by (simp_all add: sz_def)
  have o4: "size_add ?p 4 = ?p + 4"
    using assms(1) b1 by (simp add: size_add_no_wrap)
  have o2: "size_add (?p + 4) sz = ?p + 4 + sz"
    using assms(1) b2 by (simp add: size_add_no_wrap)
  have ld: "length data = ?p + 4 + length m + length (concat (map frame ms)) + length post"
    using Cons.prems(1) by (simp add: length_frame)
  have rest: "(0 < length (concat (map frame ms))) = (ms \<noteq> [])"
    by (cases ms) (simp_all add: length_frame)
  define in_range2 where "in_range2 = (m \<noteq> [] \<or> ms \<noteq> [] \<or> post \<noteq> [])"
  have "(?p + 4 < length data) = in_range2"
    using rest by (auto simp: ld in_range2_def)
  then have r2: "read_bytes data (?p + 4) sz = Inr (m, in_range2)"
    using b2 m by (simp add: read_bytes_def)
  have r1: "read_bytes data ?p 4 = Inr (take 4 (drop ?p data), True)"
    using b1 by (simp add: read_bytes_def)
  have step: "unserializeLoop data itemSize idx ?p acc flag
      = unserializeLoop data itemSize (Suc idx) (?p + 4 + sz) (acc @ [m]) (flag \<and> in_range2)"
    using lt o4 o2 b1 b2 r1 r2
    by (simp add: unserializeLoop.simps [of data itemSize idx] Let_def sz_def [symmetric])
  have data': "data = (pre @ frame m) @ concat (map frame ms) @ post"
    using Cons.prems(1) by simp
  have "unserializeLoop data itemSize (Suc idx) (length (pre @ frame m)) (acc @ [m])
          (flag \<and> in_range2)
      = unserializeLoop data itemSize (Suc idx + length ms)
          (length (pre @ frame m) + length (concat (map frame ms))) ((acc @ [m]) @ ms)
          ((flag \<and> in_range2) \<and> (ms = [] \<or> post \<noteq> [] \<or> last ms \<noteq> []))"
    using Cons.prems(2,3) by (intro Cons.IH [OF data']) simp_all
  moreover have "((flag \<and> in_range2) \<and> (ms = [] \<or> post \<noteq> [] \<or> last ms \<noteq> []))
      = (flag \<and> (m # ms = [] \<or> post \<noteq> [] \<or> last (m # ms) \<noteq> []))"
    by (auto simp: in_range2_def)
  ultimately show ?case
    using step sz by (simp add: length_frame add.assoc)
qed

lemma unserializeMessages_Some:
  assumes "fs f = Some data" and "4 \<le> length data"
    and "unat (ntohl_bytes (take 4 data)) \<le> reservable"
  shows "unserializeMessages reservable fs f init
     = unserializeLoop data (unat (ntohl_bytes (take 4 data))) 0 4 [] True"
proof -
  have "size_add 0 4 = 4" by (simp add: size_add_def)
  moreover have "read_bytes data 0 4 = Inr (take 4 data, True)"
    using assms(2) by (auto simp: read_bytes_def)
  ultimately show ?thesis
    using assms by (simp add: unserializeMessages_def readFile_def)
qed

lemma unserializeMessages_BadAlloc:
  assumes "fs f = Some data" and "4 \<le> length data"
    and "reservable < unat (ntohl_bytes (take 4 data))"
  shows "unserializeMessages reservable fs f init = Inl BadAlloc"
proof -
  have "read_bytes data 0 4 = Inr (take 4 data, True)"
    using assms(2) by (auto simp: read_bytes_def)
  then show ?thesis
    using assms by (simp add: unserializeMessages_def readFile_def)
qed

text \<open>
  C3. The reader does signal an error, and it does hand \<^verbatim>\<open>operator[]\<close> a subscript past
  the end of the data. A log of the four bytes \<^verbatim>\<open>ff ff ff ff\<close> announces 4294967295
  entries; \<^verbatim>\<open>messages.reserve(itemSize)\<close> asks for that many strings before the first
  entry is looked at, and on a platform that does not grant them the call throws
  \<^verbatim>\<open>std::bad_alloc\<close>, which neither \<open>unserializeMessages\<close> nor its caller catches. A log
  of \<^verbatim>\<open>00 00 00 01 00 00 00 00\<close>, which is what \<open>serializeMessages\<close> writes for one
  empty fragment, is read back as that fragment, but the empty entry is taken from
  \<^verbatim>\<open>&data[8]\<close> of a vector of 8 bytes.
\<close>

theorem unserializeMessages_faults:
  "unserializeMessages scenario_reservable (scenario_log [255, 255, 255, 255]) ''chat.dat'' []
     = Inl BadAlloc
   \<and> serializeMessages no_files ''chat.dat'' [[]] = scenario_log [0, 0, 0, 1, 0, 0, 0, 0]
   \<and> unserializeMessages scenario_reservable (scenario_log [0, 0, 0, 1, 0, 0, 0, 0]) ''chat.dat'' []
     = Inr ([[]], False)"
proof -
  have "unserializeMessages scenario_reservable (scenario_log [255, 255, 255, 255]) ''chat.dat'' []
     = Inl BadAlloc"
    by (rule unserializeMessages_BadAlloc [of _ _ "[255, 255, 255, 255]"])
       (simp_all add: scenario_log_def writeFile_def scenario_reservable_def)
  moreover have "serializeMessages no_files ''chat.dat'' [[]]
      = scenario_log [0, 0, 0, 1, 0, 0, 0, 0]"
    by (simp add: serializeMessages_def writeFile_def appendFile_def scenario_log_def
          htonl_bytes_def no_files_def)
  moreover have "unserializeMessages scenario_reservable (scenario_log [0, 0, 0, 1, 0, 0, 0, 0])
      ''chat.dat'' [] = Inr ([[]], False)"
    by (simp add: unserializeMessages_def scenario_log_def writeFile_def readFile_def
          read_bytes_def size_add_def unserializeLoop.simps scenario_reservable_def)
  ultimately show ?thesis by simp
qed

text \<open>
  C10. Reading back a log that was just written returns the fragments written, in order:
  for a list whose length and whose fragments' sizes each fit 32 bits,
  \<open>unserializeMessages\<close> on the file left by \<open>serializeMessages\<close> gives the list
  itself, whatever the vector handed in held and whatever the store held before. The
  count that \<^verbatim>\<open>reserve\<close> asks for is the length of the list just written, which the
  writer held in a vector of the same type: the platform grants it. Every subscript is
  in range unless the last fragment is empty, in which case it is taken from the address
  one past the last byte, with no byte read.
\<close>

theorem serialize_unserialize_roundtrip:
  assumes "length ms < 2 ^ 32" and "\<forall>m \<in> set ms. length m < 2 ^ 32"
    and "4 + length (concat (map frame ms)) < 2 ^ 63"
    and "length ms \<le> reservable"
  shows "unserializeMessages reservable (serializeMessages fs f ms) f init
     = Inr (ms, ms = [] \<or> last ms \<noteq> [])"
proof -
  define pre where "pre = htonl_bytes (of_nat (length ms))"
  define data where "data = pre @ concat (map frame ms) @ []"
  have lpre: "length pre = 4" by (simp add: pre_def length_htonl_bytes)
  have fsf: "serializeMessages fs f ms f = Some data"
    by (simp add: serializeMessages_content data_def pre_def)
  have ld: "length data < 2 ^ 63" using assms(3) by (simp add: data_def lpre)
  have l4: "4 \<le> length data" by (simp add: data_def lpre)
  have "take 4 data = pre" by (simp add: data_def lpre)
  then have n: "unat (ntohl_bytes (take 4 data)) = length ms"
    using assms(1) by (simp add: pre_def ntohl_htonl unat_of_nat)
  then have granted: "unat (ntohl_bytes (take 4 data)) \<le> reservable"
    using assms(4) by simp
  have "unserializeLoop data (length ms) 0 (length pre) [] True
      = unserializeLoop data (length ms) (0 + length ms)
          (length pre + length (concat (map frame ms))) ([] @ ms)
          (True \<and> (ms = [] \<or> [] \<noteq> ([] :: bytes) \<or> last ms \<noteq> []))"
    by (rule unserializeLoop_reads [OF ld data_def assms(2)]) simp
  also have "\<dots> = Inr (ms, ms = [] \<or> last ms \<noteq> [])"
    by (simp add: unserializeLoop.simps)
  finally show ?thesis
    using unserializeMessages_Some [of "serializeMessages fs f ms" f data reservable init,
        OF fsf l4 granted] n
    by (simp add: lpre)
qed

theorem serialize_unserialize_roundtrip_witness:
  "length [[1, 2], [], [7 :: byte]] < 2 ^ 32
   \<and> 4 + length (concat (map frame [[1, 2], [], [7]])) < 2 ^ 63
   \<and> length [[1, 2], [], [7 :: byte]] \<le> scenario_reservable
   \<and> unserializeMessages scenario_reservable
        (serializeMessages Map.empty ''s.dat'' [[1, 2], [], [7]]) ''s.dat'' [[9]]
       = Inr ([[1, 2], [], [7]], True)"
proof -
  have h1: "length [[1, 2], [], [7 :: byte]] < 2 ^ 32" by simp
  have h2: "\<forall>m \<in> set [[1, 2], [], [7 :: byte]]. length m < 2 ^ 32" by simp
  have h3: "4 + length (concat (map frame [[1, 2], [], [7]])) < 2 ^ 63"
    by (simp add: frame_def htonl_bytes_def)
  have h4: "length [[1, 2], [], [7 :: byte]] \<le> scenario_reservable"
    by (simp add: scenario_reservable_def)
  from serialize_unserialize_roundtrip [OF h1 h2 h3 h4, of Map.empty "''s.dat''" "[[9]]"] h1 h3 h4
  show ?thesis by simp
qed

section \<open>Merging\<close>

text \<open>
  C1. Merging puts the two lists one after the other. With \<open>old\<close> the fragments read
  from the log and \<open>new\<close> the fragments of this run, \<open>mergeMessages\<close> gives
  \<open>old @ new\<close> when \<^verbatim>\<open>SPO_DESC\<close> is clear (ascending) and \<open>new @ old\<close> when it is
  raised (descending).
\<close>

theorem mergeMessages_order:
  assumes "unserializeMessages reservable fs f [] = Inr (old, in_range)"
  shows "mergeMessages reservable fs opts f new
     = Inr (if SPO_DESC \<in> opts then new @ old else old @ new)"
  using assms by (simp add: mergeMessages_def)

theorem mergeMessages_order_witness:
  "unserializeMessages scenario_reservable
      [''s.dat'' \<mapsto> [0, 0, 0, 2, 0, 0, 0, 1, 1, 0, 0, 0, 1, 2]] ''s.dat'' []
     = Inr ([[1], [2]], True)
   \<and> mergeMessages scenario_reservable
        [''s.dat'' \<mapsto> [0, 0, 0, 2, 0, 0, 0, 1, 1, 0, 0, 0, 1, 2]] {} ''s.dat'' [[3], [4]]
       = Inr [[1], [2], [3], [4]]
   \<and> mergeMessages scenario_reservable
        [''s.dat'' \<mapsto> [0, 0, 0, 2, 0, 0, 0, 1, 1, 0, 0, 0, 1, 2]] {SPO_DESC} ''s.dat'' [[3], [4]]
       = Inr [[3], [4], [1], [2]]"
proof -
  have old: "unserializeMessages scenario_reservable
      [''s.dat'' \<mapsto> [0, 0, 0, 2, 0, 0, 0, 1, 1, 0, 0, 0, 1, 2]] ''s.dat'' []
      = Inr ([[1], [2]], True)"
    by (simp add: unserializeMessages_def readFile_def read_bytes_def size_add_def
          unserializeLoop.simps scenario_reservable_def)
  from mergeMessages_order [OF old, of "{}" "[[3], [4]]"]
    mergeMessages_order [OF old, of "{SPO_DESC}" "[[3], [4]]"] old
  show ?thesis by simp
qed


section \<open>Exporting one conversation: proofs\<close>

lemma raiseMaxId_Nil: "raiseMaxId m [] = m"
  by (simp add: raiseMaxId_def)

lemma raiseMaxId_Cons:
  "raiseMaxId m (x # xs) = raiseMaxId (if msgIdValue x > m then msgIdValue x else m) xs"
  by (simp add: raiseMaxId_def)

lemma raiseMaxId_Max: "raiseMaxId m msgs = Max (insert m (msgIdValue ` set msgs))"
proof (induction msgs arbitrary: m)
  case Nil
  then show ?case by (simp add: raiseMaxId_Nil)
next
  case (Cons x xs)
  have fin: "finite (msgIdValue ` set xs)" by simp
  have "Max (insert m (insert (msgIdValue x) (msgIdValue ` set xs)))
      = Max (insert (max m (msgIdValue x)) (msgIdValue ` set xs))"
  proof (cases "set xs = {}")
    case True
    then show ?thesis by (simp add: max.commute)
  next
    case False
    then have ne: "msgIdValue ` set xs \<noteq> {}" by simp
    have "Max (insert m (insert (msgIdValue x) (msgIdValue ` set xs)))
        = max m (max (msgIdValue x) (Max (msgIdValue ` set xs)))"
      using fin ne by simp
    also have "\<dots> = max (max m (msgIdValue x)) (Max (msgIdValue ` set xs))"
      by (simp add: max.assoc)
    also have "\<dots> = Max (insert (max m (msgIdValue x)) (msgIdValue ` set xs))"
      using fin ne by simp
    finally show ?thesis .
  qed
  moreover have "(if msgIdValue x > m then msgIdValue x else m) = max m (msgIdValue x)"
    by (simp add: max_def)
  ultimately show ?case by (simp add: raiseMaxId_Cons Cons.IH)
qed


lemma messageLoop_take:
  "\<exists>k \<le> length msgs.
     messageLoop env session msgs m acc n
       = (raiseMaxId m (take k msgs), acc @ map (render env session) (take k msgs), n + k)
     \<and> (k < length msgs \<longrightarrow> cancelled env (n + k))
     \<and> (\<forall>j. 1 \<le> j \<and> j < k \<longrightarrow> \<not> cancelled env (n + j))
     \<and> (msgs \<noteq> [] \<longrightarrow> 1 \<le> k)"
proof (induction msgs arbitrary: m acc n)
  case Nil
  then show ?case by (simp add: raiseMaxId_Nil)
next
  case (Cons x xs)
  let ?m1 = "if msgIdValue x > m then msgIdValue x else m"
  let ?acc1 = "acc @ [render env session x]"
  show ?case
  proof (cases "cancelled env (n + 1)")
    case True
    then have "messageLoop env session (x # xs) m acc n = (?m1, ?acc1, n + 1)"
      by (simp add: Let_def exportMessage_def render_def)
    then show ?thesis
      using True by (intro exI [of _ 1]) (simp add: raiseMaxId_Cons raiseMaxId_Nil)
  next
    case False
    then have step: "messageLoop env session (x # xs) m acc n
        = messageLoop env session xs ?m1 ?acc1 (n + 1)"
      by (simp add: Let_def exportMessage_def render_def)
    from Cons.IH [of ?m1 ?acc1 "n + 1"]
    obtain k where k: "k \<le> length xs"
      "messageLoop env session xs ?m1 ?acc1 (n + 1)
         = (raiseMaxId ?m1 (take k xs), ?acc1 @ map (render env session) (take k xs), n + 1 + k)"
      "k < length xs \<longrightarrow> cancelled env (n + 1 + k)"
      "\<forall>j. 1 \<le> j \<and> j < k \<longrightarrow> \<not> cancelled env (n + 1 + j)"
      by blast
    have "\<not> cancelled env (n + j)" if "1 \<le> j \<and> j < Suc k" for j
    proof (cases "j = 1")
      case True
      then show ?thesis using False by simp
    next
      case False
      with that have "1 \<le> j - 1 \<and> j - 1 < k" by arith
      then have "\<not> cancelled env (n + 1 + (j - 1))" using k(4) by blast
      moreover have "n + 1 + (j - 1) = n + j" using that by arith
      ultimately show ?thesis by simp
    qed
    then show ?thesis
      using k(1,2,3) step
      by (intro exI [of _ "Suc k"]) (simp add: raiseMaxId_Cons)
  qed
qed


lemma messageLoop_complete:
  assumes "\<forall>j. 1 \<le> j \<and> j < length msgs \<longrightarrow> \<not> cancelled env j"
  shows "messageLoop env session msgs m [] 0
     = (raiseMaxId m msgs, map (render env session) msgs, length msgs)"
proof -
  from messageLoop_take [of msgs env session m "[]" 0]
  obtain k' where k': "k' \<le> length msgs"
    "messageLoop env session msgs m [] 0
       = (raiseMaxId m (take k' msgs), map (render env session) (take k' msgs), k')"
    "k' < length msgs \<longrightarrow> cancelled env k'"
    "msgs \<noteq> [] \<longrightarrow> 1 \<le> k'"
    by auto
  have "k' = length msgs"
  proof (rule ccontr)
    assume "k' \<noteq> length msgs"
    then have lt: "k' < length msgs" using k'(1) by simp
    then have "cancelled env k'" "1 \<le> k'" using k'(3,4) by auto
    then show False using assms lt by blast
  qed
  then show ?thesis using k'(2) by simp
qed


lemma exportSession_unfold:
  assumes "\<not> dbFileEmpty session"
    and "messageLoop env session
           (buildMsgEnumerator env session (getMaxId ctx (usrName session) 0))
           (getMaxId ctx (usrName session) 0) [] 0 = (maxMsgId, messages, numberOfMsgs)"
    and "(if SPO_INCREMENTAL_EXP \<in> opts
          then mergeMessages reservable fs opts (rawMsgFileName out session) messages
          else Inr messages) = Inr messages1"
  shows "exportSession ndebug reservable env opts out ctx fs session =
     Inr \<lparr>resContext = (if maxMsgId > 0 then setMaxId ctx (usrName session) maxMsgId else ctx),
          resFiles = serializeMessages fs (rawMsgFileName out session) messages1,
          resDocument = (if numberOfMsgs > 0 \<and> messages1 \<noteq> []
                         then Some (fst (paginate ndebug opts messages1)) else None),
          resPages = (if numberOfMsgs > 0 \<and> messages1 \<noteq> []
                      then snd (paginate ndebug opts messages1) else []),
          resCount = numberOfMsgs\<rparr>"
  using assms
  by (simp add: exportSession_def Let_def split: prod.splits)



lemma setMaxId_same: "maxIds (setMaxId ctx usr v) usr = Some v"
  by (simp add: setMaxId_def)




lemma pageLoop_done: "\<not> page < n \<Longrightarrow> pageLoop ms ps n page e = []"
  by (simp add: pageLoop.simps)

lemma pageLoop_step:
  "page < n \<Longrightarrow> pageLoop ms ps n page e =
     (page + 1, drop e (take (if page = n - 1 then length ms else e + ps) ms))
       # pageLoop ms ps n (page + 1) (if page = n - 1 then length ms else e + ps)"
  by (subst pageLoop.simps) (simp add: Let_def)

lemma paginate_1500:
  assumes "length ms = 1500" and "SPO_TEXT_MODE \<notin> opts" and "SPO_SYNC_LOADING \<notin> opts"
  shows "paginate True opts ms =
     (\<lparr>sizeOfPage = 1000, numberOfMsgsValue = 500, numberOfPagesValue = 1, body = take 1000 ms\<rparr>,
      [(1, drop 1000 ms)])"
proof -
  have "pageLoop ms 1000 1 0 1000 = [(1, drop 1000 ms)]"
    by (simp add: pageLoop_step pageLoop_done)
  then show ?thesis
    using assms by (simp add: paginate_def)
qed

lemma exportSession_first_run:
  assumes "\<not> dbFileEmpty session"
    and "maxIds ctx (usrName session) = None"
    and "buildMsgEnumerator env session 0 = records"
    and "\<forall>j. 1 \<le> j \<and> j < length records \<longrightarrow> \<not> cancelled env j"
    and "SPO_INCREMENTAL_EXP \<notin> opts \<or> readFile fs (rawMsgFileName out session) = None"
    and "records \<noteq> []"
  shows "exportSession ndebug reservable env opts out ctx fs session =
     Inr \<lparr>resContext = (if raiseMaxId 0 records > 0
                         then setMaxId ctx (usrName session) (raiseMaxId 0 records) else ctx),
          resFiles = serializeMessages fs (rawMsgFileName out session)
                       (map (render env session) records),
          resDocument = Some (fst (paginate ndebug opts (map (render env session) records))),
          resPages = snd (paginate ndebug opts (map (render env session) records)),
          resCount = length records\<rparr>"
proof -
  have start: "getMaxId ctx (usrName session) 0 = 0"
    using assms(2) by (simp add: getMaxId_def)
  have loop: "messageLoop env session
           (buildMsgEnumerator env session (getMaxId ctx (usrName session) 0))
           (getMaxId ctx (usrName session) 0) [] 0
      = (raiseMaxId 0 records, map (render env session) records, length records)"
    using messageLoop_complete [OF assms(4), of session 0] by (simp add: start assms(3))
  have m: "(if SPO_INCREMENTAL_EXP \<in> opts
          then mergeMessages reservable fs opts (rawMsgFileName out session)
                 (map (render env session) records)
          else Inr (map (render env session) records)) = Inr (map (render env session) records)"
    using assms(5) by (auto simp: mergeMessages_def unserializeMessages_def readFile_def)
  show ?thesis
    using exportSession_unfold [OF assms(1) loop m, of ndebug] assms(6) by simp
qed

lemma exportSession_1500:
  assumes "\<not> dbFileEmpty session"
    and "maxIds ctx (usrName session) = None"
    and "buildMsgEnumerator env session 0 = records"
    and "length records = 1500"
    and "\<forall>r \<in> set records. 0 < msgIdValue r"
    and "\<forall>j. 1 \<le> j \<and> j < 1500 \<longrightarrow> \<not> cancelled env j"
    and "SPO_INCREMENTAL_EXP \<notin> opts \<or> readFile fs (rawMsgFileName out session) = None"
    and "SPO_TEXT_MODE \<notin> opts" and "SPO_SYNC_LOADING \<notin> opts"
  shows "\<exists>res. exportSession True reservable env opts out ctx fs session = Inr res
     \<and> resCount res = 1500
     \<and> resDocument res =
          Some \<lparr>sizeOfPage = 1000, numberOfMsgsValue = 500, numberOfPagesValue = 1,
                body = take 1000 (map (render env session) records)\<rparr>
     \<and> resPages res = [(1, drop 1000 (map (render env session) records))]
     \<and> length (take 1000 (map (render env session) records)) = 1000
     \<and> length (drop 1000 (map (render env session) records)) = 500
     \<and> maxIds (resContext res) (usrName session) = Some (Max (msgIdValue ` set records))"
proof -
  have ne: "records \<noteq> []" using assms(4) by auto
  have nc: "\<forall>j. 1 \<le> j \<and> j < length records \<longrightarrow> \<not> cancelled env j"
    using assms(4,6) by simp
  have lf: "length (map (render env session) records) = 1500" using assms(4) by simp
  have fin: "finite (msgIdValue ` set records)" and ne': "msgIdValue ` set records \<noteq> {}"
    using ne by simp_all
  obtain r0 where r0: "r0 \<in> set records" using ne by (cases records) auto
  then have "0 < msgIdValue r0" using assms(5) by simp
  moreover have "msgIdValue r0 \<le> Max (msgIdValue ` set records)"
    using r0 fin by (intro Max_ge) simp_all
  ultimately have pos: "0 < Max (msgIdValue ` set records)" by simp
  have "raiseMaxId 0 records = Max (insert 0 (msgIdValue ` set records))"
    by (rule raiseMaxId_Max)
  also have "\<dots> = max 0 (Max (msgIdValue ` set records))"
    using fin ne' by simp
  also have "\<dots> = Max (msgIdValue ` set records)" using pos by simp
  finally have mx: "raiseMaxId 0 records = Max (msgIdValue ` set records)" .
  show ?thesis
    using paginate_1500 [OF lf assms(8,9)] mx pos assms(4)
    by (simp add: exportSession_first_run [OF assms(1,2,3) nc assms(7) ne] setMaxId_same)
qed

lemma scenario_records_length: "length (scenario_records n) = n"
  by (simp add: scenario_records_def)

lemma scenario_records_positive: "\<forall>r \<in> set (scenario_records n). 0 < msgIdValue r"
  by (auto simp: scenario_records_def scenario_record_def)


lemma scenario_enumerator_all: "scenario_enumerator n session 0 = scenario_records n"
  using scenario_records_positive [of n] by (simp add: scenario_enumerator_def)

lemma scenario_records_Max: "1 \<le> n \<Longrightarrow> Max (msgIdValue ` set (scenario_records n)) = int n"
proof (rule Max_eqI)
  assume n: "1 \<le> n"
  show "finite (msgIdValue ` set (scenario_records n))" by simp
  show "y \<le> int n" if "y \<in> msgIdValue ` set (scenario_records n)" for y
    using that by (auto simp: scenario_records_def scenario_record_def)
  show "int n \<in> msgIdValue ` set (scenario_records n)"
    using n by (auto simp: scenario_records_def scenario_record_def image_iff intro!: bexI [of _ n])
qed

text \<open>
  C2, as the code has it. On a first run (no entry for the conversation in the context,
  no prior log or a run that is not incremental) over a conversation for which the
  enumerator yields 1500 records, with page size 1000 (a build with \<^verbatim>\<open>NDEBUG\<close>),
  neither text mode nor synchronous loading and no cancellation, \<open>exportSession\<close> writes
  one shell document that holds the first 1000 fragments inline and announces 500 more
  fragments on 1 page, and exactly one data page, \<^verbatim>\<open>msg-1.js\<close>, with the remaining 500
  fragments. The context then holds the largest id enumerated (the ids being positive).
\<close>

theorem exportSession_first_run_1500:
  assumes "\<not> dbFileEmpty session"
    and "maxIds ctx (usrName session) = None"
    and "buildMsgEnumerator env session 0 = records"
    and "length records = 1500"
    and "\<forall>r \<in> set records. 0 < msgIdValue r"
    and "\<forall>j. 1 \<le> j \<and> j < 1500 \<longrightarrow> \<not> cancelled env j"
    and "SPO_INCREMENTAL_EXP \<notin> opts \<or> readFile fs (rawMsgFileName out session) = None"
    and "SPO_TEXT_MODE \<notin> opts" and "SPO_SYNC_LOADING \<notin> opts"
  shows "\<exists>res. exportSession True reservable env opts out ctx fs session = Inr res
     \<and> resCount res = 1500
     \<and> resDocument res =
          Some \<lparr>sizeOfPage = 1000, numberOfMsgsValue = 500, numberOfPagesValue = 1,
                body = take 1000 (map (render env session) records)\<rparr>
     \<and> resPages res = [(1, drop 1000 (map (render env session) records))]
     \<and> length (take 1000 (map (render env session) records)) = 1000
     \<and> length (drop 1000 (map (render env session) records)) = 500
     \<and> maxIds (resContext res) (usrName session) = Some (Max (msgIdValue ` set records))"
  using assms by (rule exportSession_1500)

lemma scenario_1500:
  "\<exists>res. exportSession True scenario_reservable (scenario_env 1500 None) {} ''out'' newExportContext no_files
            (scenario_session 1500) = Inr res
     \<and> resCount res = 1500
     \<and> resDocument res =
          Some \<lparr>sizeOfPage = 1000, numberOfMsgsValue = 500, numberOfPagesValue = 1,
                body = take 1000 (map (render (scenario_env 1500 None) (scenario_session 1500))
                         (scenario_records 1500))\<rparr>
     \<and> resPages res = [(1, drop 1000 (map (render (scenario_env 1500 None) (scenario_session 1500))
                         (scenario_records 1500)))]
     \<and> length (take 1000 (map (render (scenario_env 1500 None) (scenario_session 1500))
                         (scenario_records 1500))) = 1000
     \<and> length (drop 1000 (map (render (scenario_env 1500 None) (scenario_session 1500))
                         (scenario_records 1500))) = 500
     \<and> maxIds (resContext res) (usrName (scenario_session 1500))
          = Some (Max (msgIdValue ` set (scenario_records 1500)))"
proof (rule exportSession_1500)
  show "\<not> dbFileEmpty (scenario_session 1500)" by (simp add: scenario_session_def)
  show "maxIds newExportContext (usrName (scenario_session 1500)) = None"
    by (simp add: newExportContext_def)
  show "buildMsgEnumerator (scenario_env 1500 None) (scenario_session 1500) 0 = scenario_records 1500"
    by (simp add: scenario_env_def scenario_enumerator_all)
  show "length (scenario_records 1500) = 1500" by (rule scenario_records_length)
  show "\<forall>r \<in> set (scenario_records 1500). 0 < msgIdValue r" by (rule scenario_records_positive)
  show "\<forall>j. 1 \<le> j \<and> j < 1500 \<longrightarrow> \<not> cancelled (scenario_env 1500 None) j"
    by (simp add: scenario_env_def scenario_cancelled_def)
  show "SPO_INCREMENTAL_EXP \<notin> {}
      \<or> readFile no_files (rawMsgFileName ''out'' (scenario_session 1500)) = None"
    by simp
  show "SPO_TEXT_MODE \<notin> {}" by simp
  show "SPO_SYNC_LOADING \<notin> {}" by simp
qed

theorem exportSession_two_pages_counterexample:
  "pageLengths (exportSession True scenario_reservable (scenario_env 1500 None) {} ''out'' newExportContext no_files
      (scenario_session 1500)) = [500]
   \<and> pageLengths (exportSession True scenario_reservable (scenario_env 1500 None) {} ''out'' newExportContext no_files
      (scenario_session 1500)) \<noteq> [1000, 500]"
proof -
  from scenario_1500 obtain res where
    "exportSession True scenario_reservable (scenario_env 1500 None) {} ''out'' newExportContext no_files
            (scenario_session 1500) = Inr res"
    "resPages res = [(1, drop 1000 (map (render (scenario_env 1500 None) (scenario_session 1500))
                         (scenario_records 1500)))]"
    "length (drop 1000 (map (render (scenario_env 1500 None) (scenario_session 1500))
                         (scenario_records 1500))) = 500"
    by blast
  then show ?thesis by (simp add: pageLengths_def)
qed

theorem exportSession_first_run_1500_witness:
  "\<exists>res. exportSession True scenario_reservable (scenario_env 1500 None) {} ''out'' newExportContext Map.empty
            (scenario_session 1500) = Inr res
     \<and> resCount res = 1500
     \<and> pageLengths (Inr res) = [500]
     \<and> maxIds (resContext res) ''chat'' = Some 1500"
proof -
  have h1: "\<not> dbFileEmpty (scenario_session 1500)" by (simp add: scenario_session_def)
  have h2: "maxIds newExportContext (usrName (scenario_session 1500)) = None"
    by (simp add: newExportContext_def)
  have h3: "buildMsgEnumerator (scenario_env 1500 None) (scenario_session 1500) 0
      = scenario_records 1500"
    by (simp add: scenario_env_def scenario_enumerator_all)
  have h4: "length (scenario_records 1500) = 1500" by (rule scenario_records_length)
  have h5: "\<forall>r \<in> set (scenario_records 1500). 0 < msgIdValue r"
    by (rule scenario_records_positive)
  have h6: "\<forall>j. 1 \<le> j \<and> j < 1500 \<longrightarrow> \<not> cancelled (scenario_env 1500 None) j"
    by (simp add: scenario_env_def scenario_cancelled_def)
  have h7: "SPO_INCREMENTAL_EXP \<notin> {}
      \<or> readFile Map.empty (rawMsgFileName ''out'' (scenario_session 1500)) = None"
    by simp
  have h8: "SPO_TEXT_MODE \<notin> {}" and h9: "SPO_SYNC_LOADING \<notin> {}" by simp_all
  have mx: "Max (msgIdValue ` set (scenario_records 1500)) = 1500"
    using scenario_records_Max [of 1500] by simp
  have usr: "usrName (scenario_session 1500) = ''chat''" by (simp add: scenario_session_def)
  from exportSession_first_run_1500 [OF h1 h2 h3 h4 h5 h6 h7 h8 h9]
  obtain res where res:
    "exportSession True scenario_reservable (scenario_env 1500 None) {} ''out'' newExportContext Map.empty
            (scenario_session 1500) = Inr res"
    "resCount res = 1500"
    "resPages res = [(1, drop 1000 (map (render (scenario_env 1500 None) (scenario_session 1500))
                         (scenario_records 1500)))]"
    "length (drop 1000 (map (render (scenario_env 1500 None) (scenario_session 1500))
                         (scenario_records 1500))) = 500"
    "maxIds (resContext res) (usrName (scenario_session 1500))
          = Some (Max (msgIdValue ` set (scenario_records 1500)))"
    by blast
  have "pageLengths (Inr res) = [500]" using res(3,4) by (simp add: pageLengths_def)
  moreover have "maxIds (resContext res) ''chat'' = Some 1500"
    using res(5) by (simp only: mx usr)
  ultimately show ?thesis using res(1,2) by blast
qed




section \<open>The range query of the backup index\<close>

lemma lower_bound_partition:
  assumes "\<forall>i < length xs. P (xs ! i) \<longleftrightarrow> i < n"
    and "first \<le> n" and "n \<le> first + len" and "first + len \<le> length xs"
  shows "lower_bound xs P first len = n"
  using assms(2-4)
proof (induction len arbitrary: first rule: less_induct)
  case (less len)
  show ?case
  proof (cases "len > 0")
    case False
    then show ?thesis using less.prems by (simp add: lower_bound.simps)
  next
    case True
    define half where "half = len div 2"
    define middle where "middle = first + half"
    have hl: "half < len" using True by (simp add: half_def)
    have mid: "middle < length xs" using hl less.prems(3) by (simp add: middle_def)
    show ?thesis
    proof (cases "P (xs ! middle)")
      case True
      then have "middle < n" using assms(1) mid by simp
      then have "lower_bound xs P (middle + 1) (len - half - 1) = n"
        using hl less.prems by (intro less.IH) (simp_all add: middle_def)
      then show ?thesis
        using True \<open>len > 0\<close>
        by (subst lower_bound.simps) (simp add: Let_def half_def middle_def)
    next
      case False
      then have "n \<le> middle" using assms(1) mid by (meson not_le)
      then have "lower_bound xs P first half = n"
        using hl less.prems by (intro less.IH) (simp_all add: middle_def)
      then show ?thesis
        using False \<open>len > 0\<close>
        by (subst lower_bound.simps) (simp add: Let_def half_def middle_def)
    qed
  qed
qed

lemma upper_bound_partition:
  assumes "\<forall>i < length xs. Q (xs ! i) \<longleftrightarrow> n \<le> i"
    and "first \<le> n" and "n \<le> first + len" and "first + len \<le> length xs"
  shows "upper_bound xs Q first len = n"
  using assms(2-4)
proof (induction len arbitrary: first rule: less_induct)
  case (less len)
  show ?case
  proof (cases "len > 0")
    case False
    then show ?thesis using less.prems by (simp add: upper_bound.simps)
  next
    case True
    define half where "half = len div 2"
    define middle where "middle = first + half"
    have hl: "half < len" using True by (simp add: half_def)
    have mid: "middle < length xs" using hl less.prems(3) by (simp add: middle_def)
    show ?thesis
    proof (cases "Q (xs ! middle)")
      case False
      then have "middle < n" using assms(1) mid by (meson not_le)
      then have "upper_bound xs Q (middle + 1) (len - half - 1) = n"
        using hl less.prems by (intro less.IH) (simp_all add: middle_def)
      then show ?thesis
        using False \<open>len > 0\<close>
        by (subst upper_bound.simps) (simp add: Let_def half_def middle_def)
    next
      case True
      then have "n \<le> middle" using assms(1) mid by simp
      then have "upper_bound xs Q first half = n"
        using hl less.prems by (intro less.IH) (simp_all add: middle_def)
      then show ?thesis
        using True \<open>len > 0\<close>
        by (subst upper_bound.simps) (simp add: Let_def half_def middle_def)
    qed
  qed
qed

lemma filterLoop_range:
  assumes "it \<le> second" and "second \<le> length m_files"
  shows "filterLoop m_files f it second files
     = Inr (files @ filter (matches f) (take (second - it) (drop it m_files)))"
  using assms
proof (induction "second - it" arbitrary: it files)
  case 0
  then show ?case by (simp add: filterLoop.simps)
next
  case (Suc k)
  then have lt: "it < second" and inb: "it < length m_files" by simp_all
  have d: "drop it m_files = m_files ! it # drop (it + 1) m_files"
    using inb by (simp add: Cons_nth_drop_Suc)
  have t: "take (second - it) (drop it m_files)
      = m_files ! it # take (second - (it + 1)) (drop (it + 1) m_files)"
  proof -
    have "second - it = Suc (second - (it + 1))" using lt by simp
    then show ?thesis by (simp only: d take_Suc_Cons)
  qed
  have k: "k = second - (it + 1)" using Suc.hyps(2) by simp
  have "filterLoop m_files f it second files
      = filterLoop m_files f (it + 1) second
          (if matches f (m_files ! it) then files @ [m_files ! it] else files)"
    using lt inb by (subst filterLoop.simps) simp
  also have "\<dots> = Inr ((if matches f (m_files ! it) then files @ [m_files ! it] else files)
        @ filter (matches f) (take (second - (it + 1)) (drop (it + 1) m_files)))"
    using lt Suc.prems(2) by (intro Suc.hyps(1) [OF k]) simp_all
  finally show ?case by (simp only: t) simp
qed

lemma partition_index:
  assumes "\<forall>x \<in> set as. P x" and "\<forall>x \<in> set bs. \<not> P x"
  shows "\<forall>i < length (as @ bs). P ((as @ bs) ! i) \<longleftrightarrow> i < length as"
  using assms by (auto simp: nth_append)

lemma ITunesDb_filter_partition:
  assumes "m_files = part_lo @ part_eq @ part_hi"
    and "\<forall>x \<in> set part_lo. file_before_key f x \<and> \<not> key_before_file f x \<and> \<not> matches f x"
    and "\<forall>x \<in> set part_eq. \<not> file_before_key f x \<and> \<not> key_before_file f x"
    and "\<forall>x \<in> set part_hi. \<not> file_before_key f x \<and> key_before_file f x \<and> \<not> matches f x"
  shows "ITunesDb_filter m_files f = Inr (filter (matches f) m_files)"
proof -
  have lb: "lower_bound m_files (file_before_key f) 0 (length m_files) = length part_lo"
  proof (rule lower_bound_partition)
    show "\<forall>i < length m_files. file_before_key f (m_files ! i) \<longleftrightarrow> i < length part_lo"
      unfolding assms(1) using assms(2,3,4) by (intro partition_index) auto
  qed (simp_all add: assms(1))
  have ub: "upper_bound m_files (key_before_file f) 0 (length m_files) = length (part_lo @ part_eq)"
  proof (rule upper_bound_partition)
    have "\<forall>i < length ((part_lo @ part_eq) @ part_hi).
        (\<not> key_before_file f (((part_lo @ part_eq) @ part_hi) ! i)) \<longleftrightarrow> i < length (part_lo @ part_eq)"
      using assms(2,3,4) by (intro partition_index) auto
    then show "\<forall>i < length m_files. key_before_file f (m_files ! i) \<longleftrightarrow> length (part_lo @ part_eq) \<le> i"
      unfolding assms(1) by (simp add: not_less [symmetric]) blast
  qed (simp_all add: assms(1))
  have none_below: "filter (matches f) part_lo = []" using assms(2) by (simp add: filter_empty_conv)
  have none_above: "filter (matches f) part_hi = []" using assms(4) by (simp add: filter_empty_conv)
  have all: "filter (matches f) m_files = filter (matches f) part_eq"
    by (simp add: assms(1) none_below none_above)
  show ?thesis
  proof (cases "part_eq = []")
    case True
    then show ?thesis using lb ub all by (simp add: ITunesDb_filter_def equal_range_def)
  next
    case False
    have "filterLoop m_files f (length part_lo) (length (part_lo @ part_eq)) []
        = Inr ([] @ filter (matches f)
            (take (length (part_lo @ part_eq) - length part_lo) (drop (length part_lo) m_files)))"
      by (rule filterLoop_range) (simp_all add: assms(1))
    then have "filterLoop m_files f (length part_lo) (length (part_lo @ part_eq)) []
        = Inr (filter (matches f) part_eq)"
      by (simp add: assms(1))
    then show ?thesis
      using False lb ub all by (simp add: ITunesDb_filter_def equal_range_def)
  qed
qed

text \<open>
  C7. For a catalog that the comparator of the filter sees as sorted, that is, made of
  the files before the key, then the files neither before nor after it, then the files
  after the key, where only files of the middle part can match, \<open>ITunesDb_filter\<close>
  returns exactly the files of the catalog that match, in the order of the catalog:
  the same list as a scan of the whole catalog with the match test. It never leaves
  the catalog.
\<close>

theorem ITunesDb_filter_linear_scan:
  assumes "m_files = part_lo @ part_eq @ part_hi"
    and "\<forall>x \<in> set part_lo. file_before_key f x \<and> \<not> key_before_file f x \<and> \<not> matches f x"
    and "\<forall>x \<in> set part_eq. \<not> file_before_key f x \<and> \<not> key_before_file f x"
    and "\<forall>x \<in> set part_hi. \<not> file_before_key f x \<and> key_before_file f x \<and> \<not> matches f x"
  shows "ITunesDb_filter m_files f = Inr (filter (matches f) m_files)"
  using assms by (rule ITunesDb_filter_partition)

theorem ITunesDb_filter_linear_scan_witness:
  "ITunesDb_filter
     (map catalog_file [''Documents/a'', ''Library/x'', ''Library/y'', ''tmp''])
     (prefix_filter ''Library/'')
   = Inr (map catalog_file [''Library/x'', ''Library/y''])"
proof -
  let ?f = "prefix_filter ''Library/''"
  have split: "map catalog_file [''Documents/a'', ''Library/x'', ''Library/y'', ''tmp'']
      = map catalog_file [''Documents/a''] @ map catalog_file [''Library/x'', ''Library/y'']
          @ map catalog_file [''tmp'']"
    by simp
  have lo: "\<forall>x \<in> set (map catalog_file [''Documents/a'']).
      file_before_key ?f x \<and> \<not> key_before_file ?f x \<and> \<not> matches ?f x"
    by (simp add: prefix_filter_def catalog_file_def)
  have eq: "\<forall>x \<in> set (map catalog_file [''Library/x'', ''Library/y'']).
      \<not> file_before_key ?f x \<and> \<not> key_before_file ?f x"
    by (simp add: prefix_filter_def catalog_file_def)
  have hi: "\<forall>x \<in> set (map catalog_file [''tmp'']).
      \<not> file_before_key ?f x \<and> key_before_file ?f x \<and> \<not> matches ?f x"
    by (simp add: prefix_filter_def catalog_file_def)
  from ITunesDb_filter_linear_scan [OF split lo eq hi]
  show ?thesis by (simp add: prefix_filter_def catalog_file_def)
qed

text \<open>
  A catalog sorted by path is sorted in this sense for the filter of any prefix: taking
  the first characters of a path is monotone in the order of strings, so the files are
  those whose truncated path is below the prefix, then those that have the prefix, then
  those above it.
\<close>

lemma take_mono_string: "(xs :: string) \<le> ys \<Longrightarrow> take n xs \<le> take n ys"
proof (induction n arbitrary: xs ys)
  case 0
  then show ?case by simp
next
  case (Suc n)
  show ?case
  proof (cases xs)
    case Nil
    then show ?thesis by simp
  next
    case (Cons a as)
    then obtain b bs where ys: "ys = b # bs"
      using Suc.prems by (cases ys) auto
    from Suc.prems have "a < b \<or> a = b \<and> as \<le> bs"
      by (simp add: Cons ys)
    then show ?thesis
      using Suc.IH [of as bs] by (auto simp: Cons ys)
  qed
qed

lemma sorted_three_parts:
  fixes k :: "'a \<Rightarrow> 'b::linorder"
  assumes "sorted (map k xs)"
  shows "\<exists>lo eq hi. xs = lo @ eq @ hi \<and> (\<forall>x \<in> set lo. k x < p)
     \<and> (\<forall>x \<in> set eq. k x = p) \<and> (\<forall>x \<in> set hi. p < k x)"
  using assms
proof (induction xs)
  case Nil
  then show ?case by simp
next
  case (Cons x xs)
  then have le: "\<forall>y \<in> set xs. k x \<le> k y" and "sorted (map k xs)" by simp_all
  from Cons.IH [OF this(2)] obtain lo eq hi where parts: "xs = lo @ eq @ hi"
    "\<forall>x \<in> set lo. k x < p" "\<forall>x \<in> set eq. k x = p" "\<forall>x \<in> set hi. p < k x"
    by blast
  consider "k x < p" | "k x = p" | "p < k x" by (meson less_linear)
  then show ?case
  proof cases
    case 1
    then have "x # xs = (x # lo) @ eq @ hi \<and> (\<forall>y \<in> set (x # lo). k y < p)"
      using parts(1,2) by simp
    then show ?thesis using parts(3,4) by blast
  next
    case 2
    have "lo = []"
    proof (cases lo)
      case (Cons y ys)
      then have "k y < p" "k x \<le> k y" using parts(1,2) le by simp_all
      then show ?thesis using 2 by simp
    qed simp
    then have "x # xs = [] @ (x # eq) @ hi \<and> (\<forall>y \<in> set (x # eq). k y = p)"
      using parts(1,3) 2 by simp
    then show ?thesis using parts(4) by (metis empty_iff empty_set)
  next
    case 3
    have "lo = []"
    proof (cases lo)
      case (Cons y ys)
      then have "k y < p" "k x \<le> k y" using parts(1,2) le by simp_all
      then show ?thesis using 3 by simp
    qed simp
    moreover have "eq = []"
    proof (cases eq)
      case (Cons y ys)
      then have "k y = p" "k x \<le> k y" using parts(1,3) le by simp_all
      then show ?thesis using 3 by simp
    qed simp
    ultimately have "x # xs = [] @ [] @ (x # hi) \<and> (\<forall>y \<in> set (x # hi). p < k y)"
      using parts(1,4) 3 by simp
    then show ?thesis by (metis empty_iff empty_set)
  qed
qed

lemma sorted_by_path_prefix:
  assumes "sorted (map relativePath m_files)"
  shows "sorted (map (\<lambda>file. take (length p) (relativePath file)) m_files)"
proof -
  have "sorted_wrt (\<lambda>x y. relativePath x \<le> relativePath y) m_files"
    using assms by (simp add: sorted_map)
  then have "sorted_wrt (\<lambda>x y. take (length p) (relativePath x) \<le> take (length p) (relativePath y)) m_files"
    by (rule sorted_wrt_mono_rel [rotated]) (simp add: take_mono_string)
  then show ?thesis by (simp add: sorted_map)
qed

lemma prefix_filter_sorted_catalog:
  assumes "sorted (map relativePath m_files)"
  shows "ITunesDb_filter m_files (prefix_filter p)
     = Inr (filter (\<lambda>file. prefix p (relativePath file)) m_files)"
proof -
  let ?k = "\<lambda>file. take (length p) (relativePath file)"
  from sorted_three_parts [OF sorted_by_path_prefix [OF assms], of p p]
  obtain lo eq hi where parts: "m_files = lo @ eq @ hi"
    "\<forall>x \<in> set lo. ?k x < p" "\<forall>x \<in> set eq. ?k x = p" "\<forall>x \<in> set hi. p < ?k x"
    by blast
  have tp: "take (length p) s = p \<longleftrightarrow> prefix p s" for s :: string
  proof
    assume "take (length p) s = p"
    then have "s = p @ drop (length p) s" by (metis append_take_drop_id)
    then show "prefix p s" by (metis prefixI)
  next
    assume "prefix p s"
    then show "take (length p) s = p" by (auto simp: prefix_def)
  qed
  have m: "matches (prefix_filter p) = (\<lambda>file. prefix p (relativePath file))"
    by (rule ext) (simp add: prefix_filter_def tp)
  have "ITunesDb_filter m_files (prefix_filter p) = Inr (filter (matches (prefix_filter p)) m_files)"
    using parts(2,3,4)
    by (intro ITunesDb_filter_partition [OF parts(1)]) (auto simp: prefix_filter_def)
  then show ?thesis by (simp only: m)
qed

section \<open>The start of a pass\<close>

lemma loadExportContext_fails:
  assumes "readFileContents fs contextFile = []
      \<or> decode (readFileContents fs contextFile) = None
      \<or> (\<exists>c. decode (readFileContents fs contextFile) = Some c \<and> maxIds c = Map.empty)"
  shows "fst (loadExportContext decode fs contextFile context) = False
     \<and> maxIds (snd (loadExportContext decode fs contextFile context))
         = (if readFileContents fs contextFile \<noteq> []
               \<and> decode (readFileContents fs contextFile) \<noteq> None
            then Map.empty else maxIds context)"
  using assms
  by (auto simp: loadExportContext_def unserialize_def getNumberOfSessions_def Let_def
      split: option.splits)

text \<open>
  C8. When the file of the stored context is absent or empty, or its content does not
  decode, or it decodes to a context without conversations, \<open>loadExportContext\<close>
  answers \<^verbatim>\<open>false\<close>, and the pass goes on with the options it was started with, kept in
  the context, and with a context without any conversation: no stored high-water mark
  is used. The pass starts without a context object, as the constructor and the end of
  \<open>runImpl\<close> leave it.
\<close>

theorem loadExportContext_no_prior_context:
  assumes "readFileContents fs (contextFileName m_output) = []
      \<or> decode (readFileContents fs (contextFileName m_output)) = None
      \<or> (\<exists>c. decode (readFileContents fs (contextFileName m_output)) = Some c
            \<and> maxIds c = Map.empty)"
  shows "fst (loadExportContext decode fs (contextFileName m_output) context) = False
     \<and> fst (runImpl_context decode fs m_output m_options None) = m_options
     \<and> getOptions (snd (runImpl_context decode fs m_output m_options None)) = m_options
     \<and> maxIds (snd (runImpl_context decode fs m_output m_options None)) = Map.empty"
proof -
  have l: "fst (loadExportContext decode fs (contextFileName m_output) c0) = False
     \<and> maxIds (snd (loadExportContext decode fs (contextFileName m_output) c0))
         = (if readFileContents fs (contextFileName m_output) \<noteq> []
               \<and> decode (readFileContents fs (contextFileName m_output)) \<noteq> None
            then Map.empty else maxIds c0)" for c0
    using assms by (rule loadExportContext_fails [of fs "contextFileName m_output" decode c0])
  have f: "fst (loadExportContext decode fs (contextFileName m_output) context) = False"
    using l [of "context"] by simp
  obtain loaded context1 where
    lc: "loadExportContext decode fs (contextFileName m_output) newExportContext = (loaded, context1)"
    by (cases "loadExportContext decode fs (contextFileName m_output) newExportContext")
  have "\<not> loaded" using l [of newExportContext] lc by simp
  moreover have "maxIds context1 = Map.empty"
    using l [of newExportContext] lc by (simp add: newExportContext_def split: if_splits)
  moreover have new: "maxIds newExportContext = Map.empty"
    by (simp add: newExportContext_def)
  ultimately have
    "fst (runImpl_context decode fs m_output m_options None) = m_options
     \<and> getOptions (snd (runImpl_context decode fs m_output m_options None)) = m_options
     \<and> maxIds (snd (runImpl_context decode fs m_output m_options None)) = Map.empty"
    using lc new
    by (simp add: runImpl_context_def getOptions_def setOptions_def Let_def)
  with f show ?thesis by simp
qed

theorem loadExportContext_no_prior_context_witness:
  "readFileContents Map.empty (contextFileName ''out'') = []
   \<and> fst (loadExportContext decode_nothing Map.empty (contextFileName ''out'') newExportContext) = False
   \<and> fst (runImpl_context decode_nothing Map.empty ''out'' {SPO_INCREMENTAL_EXP, SPO_DESC} None)
        = {SPO_INCREMENTAL_EXP, SPO_DESC}
   \<and> getOptions (snd (runImpl_context decode_nothing Map.empty ''out''
        {SPO_INCREMENTAL_EXP, SPO_DESC} None)) = {SPO_INCREMENTAL_EXP, SPO_DESC}
   \<and> maxIds (snd (runImpl_context decode_nothing Map.empty ''out''
        {SPO_INCREMENTAL_EXP, SPO_DESC} None)) = Map.empty"
proof -
  have absent: "readFileContents Map.empty (contextFileName ''out'') = []"
    by (simp add: readFileContents_def)
  then have h: "readFileContents Map.empty (contextFileName ''out'') = []
      \<or> decode_nothing (readFileContents Map.empty (contextFileName ''out'')) = None
      \<or> (\<exists>c. decode_nothing (readFileContents Map.empty (contextFileName ''out'')) = Some c
            \<and> maxIds c = Map.empty)"
    by simp
  from loadExportContext_no_prior_context [of Map.empty "''out''" decode_nothing
      newExportContext "{SPO_INCREMENTAL_EXP, SPO_DESC}", OF h] absent
  show ?thesis by simp
qed

text \<open>
  C9, as the code has it. \<open>loadITunes\<close> answers what loading the application domain
  answers, whatever loading the shared group domain answers: it fails exactly when the
  application domain fails to load. When it fails, \<open>runImpl\<close> returns \<^verbatim>\<open>false\<close> after
  the notification that the pass is over and leaves the store as it was. In a build with
  \<^verbatim>\<open>NDEBUG\<close> it has then made no directory and written no file; in a debug build it
  has made the directory \<^verbatim>\<open>dbg\<close> in the output directory, which it makes before it
  looks at the backup, and nothing else.
\<close>

theorem loadITunes_primary_only:
  "loadITunes load detailedInfo = load ''AppDomain-com.tencent.xin''
   \<and> (load ''AppDomain-com.tencent.xin'' \<and> \<not> load ''AppDomainGroup-group.com.tencent.xin''
        \<longrightarrow> loadITunes load detailedInfo)
   \<and> (\<not> pass_load pass ''AppDomain-com.tencent.xin'' \<longrightarrow>
        runImpl ndebug pass fs m_output m_options m_exportContext
          = (False,
             [NotifyStart]
               @ (if ndebug then [] else [MakeDirectory (combinePath m_output ''dbg'')])
               @ [NotifyComplete False],
             fs)
        \<and> filter is_output
            (fst (snd (runImpl ndebug pass fs m_output m_options m_exportContext)))
          = (if ndebug then [] else [MakeDirectory (combinePath m_output ''dbg'')]))"
  by (simp add: loadITunes_def runImpl_def Let_def)

theorem loadITunes_debug_build_counterexample:
  "\<not> loadITunes (load_only [''AppDomainGroup-group.com.tencent.xin'']) True
   \<and> filter is_output
        (fst (snd (runImpl False (scenario_pass_loading [''AppDomainGroup-group.com.tencent.xin''])
           no_files ''out'' {} None)))
      = [MakeDirectory (combinePath ''out'' ''dbg'')]"
  by (simp add: loadITunes_def runImpl_def Let_def load_only_def scenario_pass_loading_def)

theorem loadITunes_primary_only_witness:
  "loadITunes (load_only [''AppDomain-com.tencent.xin'']) True
   \<and> \<not> loadITunes (load_only [''AppDomainGroup-group.com.tencent.xin'']) True
   \<and> runImpl True (scenario_pass_loading [''AppDomainGroup-group.com.tencent.xin''])
        no_files ''out'' {} None
      = (False, [NotifyStart, NotifyComplete False], no_files)
   \<and> filter is_output
        (fst (snd (runImpl True (scenario_pass_loading [''AppDomainGroup-group.com.tencent.xin''])
           no_files ''out'' {} None))) = []
   \<and> filter is_output
        (fst (snd (runImpl False (scenario_pass_loading [''AppDomainGroup-group.com.tencent.xin''])
           no_files ''out'' {} None))) = [MakeDirectory (combinePath ''out'' ''dbg'')]"
proof -
  let ?shared_only = "scenario_pass_loading [''AppDomainGroup-group.com.tencent.xin'']"
  have fails: "\<not> pass_load ?shared_only ''AppDomain-com.tencent.xin''"
    "\<not> load_only [''AppDomainGroup-group.com.tencent.xin''] ''AppDomain-com.tencent.xin''"
    by (simp_all add: load_only_def scenario_pass_loading_def)
  have loads: "load_only [''AppDomain-com.tencent.xin''] ''AppDomain-com.tencent.xin''
      \<and> \<not> load_only [''AppDomain-com.tencent.xin''] ''AppDomainGroup-group.com.tencent.xin''"
    by (simp add: load_only_def)
  from loadITunes_primary_only [of "load_only [''AppDomainGroup-group.com.tencent.xin'']" True
      ?shared_only True no_files "''out''" "{}" None]
    loadITunes_primary_only [of "load_only [''AppDomainGroup-group.com.tencent.xin'']" True
      ?shared_only False no_files "''out''" "{}" None]
    loadITunes_primary_only [of "load_only [''AppDomain-com.tencent.xin'']" True
      ?shared_only True no_files "''out''" "{}" None]
    fails loads
  show ?thesis by simp
qed

section \<open>The stored high-water mark across passes\<close>














end
